theory Spec2Isabelle
  imports Complex_Main "HOL-Library.Word" "HOL-Library.Signed_Division"
begin

section \<open>Machine types of the Windows build\<close>

text \<open>
  The program is built for Windows (it includes \<^verbatim>\<open>windows.h\<close>), where \<^verbatim>\<open>int\<close> and
  \<^verbatim>\<open>long\<close> are 32 bits wide. \<^verbatim>\<open>BYTE\<close> is an unsigned 8-bit value, \<^verbatim>\<open>WORD\<close> an unsigned
  16-bit one, \<^verbatim>\<open>DWORD\<close> an unsigned 32-bit one, \<^verbatim>\<open>LONG\<close> and \<^verbatim>\<open>HRESULT\<close> are \<^verbatim>\<open>long\<close>.
  Signed and unsigned 32-bit values share the type \<open>32 word\<close>; \<open>sint\<close> reads the
  signed ones, \<open>unat\<close> the unsigned ones, and \<open>+\<close>, \<open>-\<close> wrap around. For the unsigned
  types that is the language's rule; for the signed ones the language leaves overflow
  undefined and the compiled code wraps, which is what the model follows.
\<close>

type_synonym BYTE = "8 word"
type_synonym WORD = "16 word"
type_synonym DWORD = "32 word"
type_synonym LONG = "32 word"
type_synonym HRESULT = "32 word"

text \<open>
  A \<^verbatim>\<open>double\<close> result. Every double the modelled functions return is the quotient of
  two integers of at most 42 bits, which convert to \<^verbatim>\<open>double\<close> exactly; \<open>Fin q\<close> stands
  for the double nearest to the exact quotient \<open>q\<close>. A division by zero does not trap
  in IEEE arithmetic: it yields an infinity, or NaN for \<^verbatim>\<open>0.0 / 0\<close>.
\<close>

datatype double = Fin real | PosInf | NegInf | NaN

text \<open>
  What ends the process instead of returning: a read or write through a null pointer or
  outside the buffer, an integer division by zero, and a \<^verbatim>\<open>std::vector\<close> that cannot be
  allocated.
\<close>

datatype fault = AccessViolation | DivideByZero | AllocationFailure

definition ddiv :: "real \<Rightarrow> real \<Rightarrow> double" where
  "ddiv a b =
     (if b = 0 then (if a = 0 then NaN else if 0 < a then PosInf else NegInf)
      else Fin (a / b))"

section \<open>Status codes\<close>

text \<open>
  The values of the status codes are those of the Windows SDK headers
  (\<^verbatim>\<open>winerror.h\<close>, \<^verbatim>\<open>vfwmsgs.h\<close>); \<^verbatim>\<open>FAILED(hr)\<close> is \<^verbatim>\<open>hr < 0\<close>.
\<close>

definition S_OK :: HRESULT where "S_OK = 0"
definition S_FALSE :: HRESULT where "S_FALSE = 1"
definition E_NOINTERFACE :: HRESULT where "E_NOINTERFACE = 0x80004002"
definition E_FAIL :: HRESULT where "E_FAIL = 0x80004005"
definition E_INVALIDARG :: HRESULT where "E_INVALIDARG = 0x80070057"
definition VFW_E_NOT_FOUND :: HRESULT where "VFW_E_NOT_FOUND = 0x80040216"
definition VFW_E_CANNOT_CONNECT :: HRESULT where "VFW_E_CANNOT_CONNECT = 0x80040217"

definition FAILED :: "HRESULT \<Rightarrow> bool" where
  "FAILED hr \<longleftrightarrow> sint hr < 0"

definition SUCCEEDED :: "HRESULT \<Rightarrow> bool" where
  "SUCCEEDED hr \<longleftrightarrow> 0 \<le> sint hr"

section \<open>The frame callback \<^verbatim>\<open>CSampleGrabberCB\<close>\<close>

record CSampleGrabberCB =
  m_refCount :: DWORD
  m_frameCount :: LONG
  m_startTime :: DWORD
  m_lastFrameTime :: DWORD

text \<open>
  \<^verbatim>\<open>GetAverageFPS\<close> reads the clock: \<open>tick\<close> is what \<^verbatim>\<open>GetTickCount()\<close> returns at the
  call. \<^verbatim>\<open>elapsed\<close> is a \<^verbatim>\<open>DWORD\<close>, so the subtraction wraps and \<^verbatim>\<open>elapsed > 0\<close> is an
  unsigned comparison.
\<close>

definition GetAverageFPS :: "DWORD \<Rightarrow> CSampleGrabberCB \<Rightarrow> double" where
  "GetAverageFPS tick this =
     (let elapsed = tick - m_startTime this in
      if 0 < elapsed
      then ddiv (real_of_int (sint (m_frameCount this)) * 1000) (real (unat elapsed))
      else Fin 0)"

subsection \<open>Signed 32-bit arithmetic of the loop counters\<close>

lemma signed_take_bit_wrap:
  assumes "(2::int) ^ 31 \<le> x" "x < 2 ^ 32"
  shows "signed_take_bit 31 x = x - 2 ^ 32"
proof -
  have "(x + 2 ^ 31) mod 2 ^ 32 = (x + 2 ^ 31 - 2 ^ 32) mod (2 ^ 32 :: int)"
    by (metis minus_mod_self2)
  also have "\<dots> = x + 2 ^ 31 - 2 ^ 32"
    using assms by (intro mod_pos_pos_trivial) simp_all
  finally have m: "(x + 2 ^ 31) mod 2 ^ 32 = x + 2 ^ 31 - (2 ^ 32 :: int)" .
  have "signed_take_bit 31 x = take_bit 32 (x + 2 ^ 31) - 2 ^ 31"
    using signed_take_bit_eq_take_bit_shift [of 31 x] by simp
  also have "\<dots> = (x + 2 ^ 31) mod 2 ^ 32 - 2 ^ 31"
    by (simp add: take_bit_eq_mod)
  finally show ?thesis using m by simp
qed

lemma sint_add_small:
  fixes i :: "32 word"
  assumes "0 \<le> k" "k < 2 ^ 31"
  shows "sint (i + word_of_int k) =
    (if sint i + k < 2 ^ 31 then sint i + k else sint i + k - 2 ^ 32)"
proof -
  have k: "sint (word_of_int k :: 32 word) = k"
    using assms by (simp add: signed_of_int signed_take_bit_int_eq_self)
  have r: "- (2 ^ 31) \<le> sint i" "sint i < 2 ^ 31"
    using sint_ge [of i] sint_lt [of i] by simp_all
  have e: "sint (i + word_of_int k) = signed_take_bit 31 (sint i + k)"
    using k by (simp add: sint_word_ariths)
  show ?thesis
  proof (cases "sint i + k < 2 ^ 31")
    case True
    then show ?thesis using e r assms by (simp add: signed_take_bit_int_eq_self)
  next
    case False
    then show ?thesis using e r assms signed_take_bit_wrap [of "sint i + k"] by simp
  qed
qed

lemma sint_plus1:
  "sint ((i::32 word) + 1) = (if sint i + 1 < 2 ^ 31 then sint i + 1 else sint i + 1 - 2 ^ 32)"
  using sint_add_small [of 1 i] by simp

lemma sint_plus2:
  "sint ((i::32 word) + 2) = (if sint i + 2 < 2 ^ 31 then sint i + 2 else sint i + 2 - 2 ^ 32)"
  using sint_add_small [of 2 i] by simp

lemma sint_plus3:
  "sint ((i::32 word) + 3) = (if sint i + 3 < 2 ^ 31 then sint i + 3 else sint i + 3 - 2 ^ 32)"
  using sint_add_small [of 3 i] by simp

subsection \<open>Frame buffers\<close>

text \<open>
  A frame arrives as \<^verbatim>\<open>BYTE* frameData, long frameSize\<close>. The pointer is \<open>None\<close> when it
  is null and \<open>Some bs\<close> when it points to the readable bytes \<open>bs\<close>; \<open>rd p i\<close> is the read
  \<^verbatim>\<open>p[i]\<close> and \<open>wr v i b\<close> the assignment \<^verbatim>\<open>v[i] = b\<close> to a vector, both with a signed
  32-bit index. A read or write outside the bytes is a fault.
\<close>

definition rd :: "BYTE list option \<Rightarrow> LONG \<Rightarrow> BYTE option" where
  "rd p i =
     (case p of
        None \<Rightarrow> None
      | Some bs \<Rightarrow>
          if 0 \<le> sint i \<and> nat (sint i) < length bs then Some (bs ! nat (sint i)) else None)"

definition wr :: "BYTE list \<Rightarrow> LONG \<Rightarrow> BYTE \<Rightarrow> BYTE list option" where
  "wr v i b =
     (if 0 \<le> sint i \<and> nat (sint i) < length v then Some (v[nat (sint i) := b]) else None)"

lemma rd_Some_nonneg: "rd p i = Some b \<Longrightarrow> 0 \<le> sint i"
  by (auto simp: rd_def split: option.splits if_splits)

text \<open>
  Both frame loops have the shape
  \<^verbatim>\<open>for (long i = 0; i < frameSize; i += 3) { if (i + 2 < frameSize) { ... } }\<close>.
  The quantity below decreases with every iteration that goes on, also when \<^verbatim>\<open>i + 2\<close>
  or \<^verbatim>\<open>i += 3\<close> wraps around.
\<close>

definition loop_measure :: "LONG \<Rightarrow> LONG \<Rightarrow> nat" where
  "loop_measure frameSize i =
     (if sint frameSize \<le> sint i then 0
      else 1 + (if 0 \<le> sint i then 2 ^ 33 else 0) + nat (sint frameSize - sint i))"

lemma loop_measure_body:
  assumes "i <s frameSize" "i + 2 <s frameSize" "0 \<le> sint i" "0 \<le> sint (i + 2)"
  shows "loop_measure frameSize (i + 3) < loop_measure frameSize i"
proof -
  have r: "sint frameSize < 2 ^ 31" using sint_lt [of frameSize] by simp
  have a: "sint i < sint frameSize" "sint (i + 2) < sint frameSize"
    using assms by (simp_all add: word_sless_alt)
  have "sint (i + 2) = sint i + 2"
    using assms(3,4) sint_lt [of i] by (simp add: sint_plus2 split: if_splits)
  then have "sint (i + 3) = sint i + 3"
    using a r by (simp add: sint_plus3)
  then show ?thesis using a assms(3) by (simp add: loop_measure_def)
qed

lemma loop_measure_skip:
  assumes "i <s frameSize" "\<not> i + 2 <s frameSize"
  shows "loop_measure frameSize (i + 3) < loop_measure frameSize i"
proof -
  have r: "sint frameSize < 2 ^ 31" "- (2 ^ 31) \<le> sint frameSize"
    using sint_lt [of frameSize] sint_ge [of frameSize] by simp_all
  have ri: "sint i < 2 ^ 31" "- (2 ^ 31) \<le> sint i"
    using sint_lt [of i] sint_ge [of i] by simp_all
  have a: "sint i < sint frameSize" "sint frameSize \<le> sint (i + 2)"
    using assms by (simp_all add: word_sless_alt)
  have two: "sint (i + 2) = sint i + 2"
    using a r ri by (simp add: sint_plus2 split: if_splits)
  show ?thesis
  proof (cases "sint i + 3 < 2 ^ 31")
    case True
    then have "sint (i + 3) = sint i + 3" by (simp add: sint_plus3)
    then show ?thesis using a two by (simp add: loop_measure_def)
  next
    case False
    then have w: "sint (i + 3) = sint i + 3 - 2 ^ 32" by (simp add: sint_plus3)
    then have "sint (i + 3) < 0" "0 \<le> sint i" using ri False by simp_all
    then show ?thesis using a w r ri by (simp add: loop_measure_def)
  qed
qed

subsection \<open>Brightness\<close>

text \<open>
  The loop of \<^verbatim>\<open>CalculateAverageBrightness\<close>. The three bytes are promoted to \<^verbatim>\<open>int\<close>,
  so their sum and its quotient by 3 are exact; \<^verbatim>\<open>totalBrightness\<close> is a \<^verbatim>\<open>long\<close> and
  the addition to it wraps around at 32 bits.
\<close>

function brightness_loop ::
  "BYTE list option \<Rightarrow> LONG \<Rightarrow> LONG \<Rightarrow> LONG \<Rightarrow> fault + LONG" where
  "brightness_loop frameData frameSize i totalBrightness =
     (if i <s frameSize then
        (if i + 2 <s frameSize then
           (case rd frameData i of
              None \<Rightarrow> Inl AccessViolation
            | Some b0 \<Rightarrow>
               (case rd frameData (i + 1) of
                  None \<Rightarrow> Inl AccessViolation
                | Some b1 \<Rightarrow>
                   (case rd frameData (i + 2) of
                      None \<Rightarrow> Inl AccessViolation
                    | Some b2 \<Rightarrow>
                        brightness_loop frameData frameSize (i + 3)
                          (totalBrightness
                           + word_of_nat ((unat b0 + unat b1 + unat b2) div 3)))))
         else brightness_loop frameData frameSize (i + 3) totalBrightness)
      else Inr totalBrightness)"
  by pat_completeness auto
termination
proof (relation "measure (\<lambda>(frameData, frameSize, i, totalBrightness). loop_measure frameSize i)")
  show "wf (measure (\<lambda>(frameData, frameSize, i, totalBrightness). loop_measure frameSize i))"
    by simp
next
  fix frameData :: "BYTE list option" and frameSize i totalBrightness :: LONG
    and b0 b1 b2 :: BYTE
  assume "i <s frameSize" "i + 2 <s frameSize"
    "rd frameData i = Some b0" "rd frameData (i + 1) = Some b1" "rd frameData (i + 2) = Some b2"
  then show "((frameData, frameSize, i + 3,
        totalBrightness + word_of_nat ((unat b0 + unat b1 + unat b2) div 3)),
       frameData, frameSize, i, totalBrightness)
      \<in> measure (\<lambda>(frameData, frameSize, i, totalBrightness). loop_measure frameSize i)"
    using loop_measure_body [of i frameSize] rd_Some_nonneg by simp
next
  fix frameData :: "BYTE list option" and frameSize i totalBrightness :: LONG
  assume "i <s frameSize" "\<not> i + 2 <s frameSize"
  then show "((frameData, frameSize, i + 3, totalBrightness),
       frameData, frameSize, i, totalBrightness)
      \<in> measure (\<lambda>(frameData, frameSize, i, totalBrightness). loop_measure frameSize i)"
    using loop_measure_skip [of i frameSize] by simp
qed

declare brightness_loop.simps [simp del]

text \<open>
  \<^verbatim>\<open>return frameSize > 0 ? (double)totalBrightness / (frameSize / 3) : 0.0;\<close>
  The divisor \<^verbatim>\<open>frameSize / 3\<close> is an integer quotient, computed only for a positive
  \<^verbatim>\<open>frameSize\<close>, where truncation and \<open>div\<close> agree.
\<close>

definition CalculateAverageBrightness :: "BYTE list option \<Rightarrow> LONG \<Rightarrow> fault + double" where
  "CalculateAverageBrightness frameData frameSize =
     (case brightness_loop frameData frameSize 0 0 of
        Inl e \<Rightarrow> Inl e
      | Inr totalBrightness \<Rightarrow>
          Inr (if 0 <s frameSize
               then ddiv (real_of_int (sint totalBrightness))
                      (real_of_int (sint frameSize div 3))
               else Fin 0))"

text \<open>
  The brightness of each complete 3-byte pixel of a buffer, as the specification words
  it: the integer quotient \<open>(b0 + b1 + b2) / 3\<close>.
\<close>

fun pixel_brightness :: "BYTE list \<Rightarrow> nat list" where
  "pixel_brightness (b0 # b1 # b2 # rest) =
     (unat b0 + unat b1 + unat b2) div 3 # pixel_brightness rest"
| "pixel_brightness [] = []"
| "pixel_brightness [b0] = []"
| "pixel_brightness [b0, b1] = []"

text \<open>
  \<^verbatim>\<open>AnalyzeFrame\<close> computes the brightness of a frame of positive size and prints it on
  every 60th call; the console output is not modelled, so only a fault of the
  computation is left. The base class's \<^verbatim>\<open>ProcessFrame\<close> calls it.
\<close>

definition AnalyzeFrame :: "BYTE list option \<Rightarrow> LONG \<Rightarrow> fault + unit" where
  "AnalyzeFrame frameData frameSize =
     (if 0 <s frameSize then
        (case CalculateAverageBrightness frameData frameSize of
           Inl e \<Rightarrow> Inl e
         | Inr brightness \<Rightarrow> Inr ())
      else Inr ())"

definition CSampleGrabberCB_ProcessFrame :: "BYTE list option \<Rightarrow> LONG \<Rightarrow> fault + unit" where
  "CSampleGrabberCB_ProcessFrame frameData frameSize = AnalyzeFrame frameData frameSize"

section \<open>The frame-saving callback \<^verbatim>\<open>CFrameSavingCallback\<close>\<close>

record CFrameSavingCallback = CSampleGrabberCB +
  m_frameSaved :: bool
  m_imageWidth :: LONG
  m_imageHeight :: LONG


subsection \<open>Bitmap headers and the written file\<close>

text \<open>
  The two header structs are declared by the Windows SDK (\<^verbatim>\<open>wingdi.h\<close>), with the sizes
  and the constant \<^verbatim>\<open>BI_RGB\<close> given there.
\<close>

record BITMAPFILEHEADER =
  bfType :: WORD
  bfSize :: DWORD
  bfReserved1 :: WORD
  bfReserved2 :: WORD
  bfOffBits :: DWORD

record BITMAPINFOHEADER =
  biSize :: DWORD
  biWidth :: LONG
  biHeight :: LONG
  biPlanes :: WORD
  biBitCount :: WORD
  biCompression :: DWORD
  biSizeImage :: DWORD
  biXPelsPerMeter :: LONG
  biYPelsPerMeter :: LONG
  biClrUsed :: DWORD
  biClrImportant :: DWORD

definition sizeof_BITMAPFILEHEADER :: DWORD where "sizeof_BITMAPFILEHEADER = 14"
definition sizeof_BITMAPINFOHEADER :: DWORD where "sizeof_BITMAPINFOHEADER = 40"
definition BI_RGB :: DWORD where "BI_RGB = 0"

text \<open>
  A file is its name and what the successive \<^verbatim>\<open>WriteFile\<close> calls put into it, in order.
  The code ignores the results of \<^verbatim>\<open>WriteFile\<close>; every write is taken to store all the
  bytes it is given.
\<close>

datatype chunk = FileHeader BITMAPFILEHEADER | InfoHeader BITMAPINFOHEADER | Bytes "BYTE list"

record written_file =
  fileName :: string
  chunks :: "chunk list"

subsection \<open>BGR to RGB\<close>

text \<open>
  One pass of the body
  \<^verbatim>\<open>rgbData[i] = frameData[i + 2]; rgbData[i + 1] = frameData[i + 1]; rgbData[i + 2] = frameData[i];\<close>
  \<open>None\<close> when one of the accesses faults.
\<close>

definition copy_pixel :: "BYTE list option \<Rightarrow> LONG \<Rightarrow> BYTE list \<Rightarrow> BYTE list option" where
  "copy_pixel frameData i rgbData =
     (case rd frameData (i + 2) of
        None \<Rightarrow> None
      | Some r \<Rightarrow>
         (case wr rgbData i r of
            None \<Rightarrow> None
          | Some v1 \<Rightarrow>
             (case rd frameData (i + 1) of
                None \<Rightarrow> None
              | Some g \<Rightarrow>
                 (case wr v1 (i + 1) g of
                    None \<Rightarrow> None
                  | Some v2 \<Rightarrow>
                     (case rd frameData i of
                        None \<Rightarrow> None
                      | Some b \<Rightarrow> wr v2 (i + 2) b)))))"

lemma copy_pixel_Some_nonneg:
  "copy_pixel frameData i rgbData = Some v \<Longrightarrow> 0 \<le> sint i \<and> 0 \<le> sint (i + 2)"
  by (auto simp: copy_pixel_def wr_def dest: rd_Some_nonneg split: option.splits if_splits)

function bgr_loop :: "BYTE list option \<Rightarrow> LONG \<Rightarrow> LONG \<Rightarrow> BYTE list \<Rightarrow> fault + BYTE list" where
  "bgr_loop frameData frameSize i rgbData =
     (if i <s frameSize then
        (if i + 2 <s frameSize then
           (case copy_pixel frameData i rgbData of
              None \<Rightarrow> Inl AccessViolation
            | Some rgbData' \<Rightarrow> bgr_loop frameData frameSize (i + 3) rgbData')
         else bgr_loop frameData frameSize (i + 3) rgbData)
      else Inr rgbData)"
  by pat_completeness auto
termination
proof (relation "measure (\<lambda>(frameData, frameSize, i, rgbData). loop_measure frameSize i)")
  show "wf (measure (\<lambda>(frameData, frameSize, i, rgbData). loop_measure frameSize i))"
    by simp
next
  fix frameData :: "BYTE list option" and frameSize i :: LONG and rgbData rgbData' :: "BYTE list"
  assume "i <s frameSize" "i + 2 <s frameSize" "copy_pixel frameData i rgbData = Some rgbData'"
  then show "((frameData, frameSize, i + 3, rgbData'), frameData, frameSize, i, rgbData)
      \<in> measure (\<lambda>(frameData, frameSize, i, rgbData). loop_measure frameSize i)"
    using loop_measure_body [of i frameSize] copy_pixel_Some_nonneg by simp
next
  fix frameData :: "BYTE list option" and frameSize i :: LONG and rgbData :: "BYTE list"
  assume "i <s frameSize" "\<not> i + 2 <s frameSize"
  then show "((frameData, frameSize, i + 3, rgbData), frameData, frameSize, i, rgbData)
      \<in> measure (\<lambda>(frameData, frameSize, i, rgbData). loop_measure frameSize i)"
    using loop_measure_skip [of i frameSize] by simp
qed

declare bgr_loop.simps [simp del]

text \<open>
  \<^verbatim>\<open>std::vector<BYTE> rgbData(frameSize)\<close> holds \<^verbatim>\<open>frameSize\<close> zero bytes; a negative
  \<^verbatim>\<open>frameSize\<close> converts to a size no vector can have, and the constructor throws.
\<close>

definition bgr_to_rgb :: "BYTE list option \<Rightarrow> LONG \<Rightarrow> fault + BYTE list" where
  "bgr_to_rgb frameData frameSize =
     (if sint frameSize < 0 then Inl AllocationFailure
      else bgr_loop frameData frameSize 0 (replicate (nat (sint frameSize)) 0))"

text \<open>
  The conversion as the specification words it. The per-pixel exchange alone: the first
  and third byte of every complete pixel change places, every other byte stays.
\<close>

fun swap_first_third :: "BYTE list \<Rightarrow> BYTE list" where
  "swap_first_third (b0 # b1 # b2 # rest) = b2 # b1 # b0 # swap_first_third rest"
| "swap_first_third [] = []"
| "swap_first_third [b0] = [b0]"
| "swap_first_third [b0, b1] = [b0, b1]"

text \<open>
  The written data: the exchange on the complete pixels, and zero for the bytes after the
  last complete pixel.
\<close>

fun swap_pixels :: "BYTE list \<Rightarrow> BYTE list" where
  "swap_pixels (b0 # b1 # b2 # rest) = b2 # b1 # b0 # swap_pixels rest"
| "swap_pixels [] = []"
| "swap_pixels [b0] = [0]"
| "swap_pixels [b0, b1] = [0, 0]"

subsection \<open>Saving a frame\<close>

text \<open>
  When a dimension is still 0 the size is estimated from the frame:
  \<^verbatim>\<open>totalPixels = frameSize / 3; m_imageWidth = (int)std::sqrt(totalPixels * 1.33);
  m_imageHeight = totalPixels / m_imageWidth;\<close>
  The square root is floating point; the value of \<^verbatim>\<open>(int)std::sqrt(totalPixels * 1.33)\<close>
  is the parameter \<open>sqrt_est totalPixels\<close>. The quotients are integer divisions, which
  truncate, and the second one traps when the estimated width is 0.
\<close>

definition estimate_dimensions ::
  "(LONG \<Rightarrow> LONG) \<Rightarrow> CFrameSavingCallback \<Rightarrow> LONG \<Rightarrow> fault + CFrameSavingCallback" where
  "estimate_dimensions sqrt_est this frameSize =
     (if m_imageWidth this = 0 \<or> m_imageHeight this = 0 then
        (let totalPixels = (word_of_int (sint frameSize sdiv 3) :: LONG);
             width = sqrt_est totalPixels
         in if width = 0 then Inl DivideByZero
            else Inr (this\<lparr>m_imageWidth := width,
                          m_imageHeight := word_of_int (sint totalPixels sdiv sint width)\<rparr>))
      else Inr this)"

definition make_file_header :: "LONG \<Rightarrow> BITMAPFILEHEADER" where
  "make_file_header frameSize =
     \<lparr>bfType = 0x4D42,
      bfSize = (sizeof_BITMAPFILEHEADER + sizeof_BITMAPINFOHEADER) + frameSize,
      bfReserved1 = 0, bfReserved2 = 0,
      bfOffBits = sizeof_BITMAPFILEHEADER + sizeof_BITMAPINFOHEADER\<rparr>"

definition make_info_header :: "CFrameSavingCallback \<Rightarrow> LONG \<Rightarrow> BITMAPINFOHEADER" where
  "make_info_header this frameSize =
     \<lparr>biSize = sizeof_BITMAPINFOHEADER,
      biWidth = m_imageWidth this,
      biHeight = - m_imageHeight this,
      biPlanes = 1,
      biBitCount = 24,
      biCompression = BI_RGB,
      biSizeImage = frameSize,
      biXPelsPerMeter = 0, biYPelsPerMeter = 0, biClrUsed = 0, biClrImportant = 0\<rparr>"

text \<open>
  \<open>create_ok\<close> says whether \<^verbatim>\<open>CreateFileA\<close> returned a valid handle. The result is the
  object with its dimensions, and the file when one was written.
\<close>

definition SaveFrameAsBMP ::
  "(LONG \<Rightarrow> LONG) \<Rightarrow> bool \<Rightarrow> CFrameSavingCallback \<Rightarrow> BYTE list option \<Rightarrow> LONG
   \<Rightarrow> fault + (CFrameSavingCallback \<times> written_file option)" where
  "SaveFrameAsBMP sqrt_est create_ok this frameData frameSize =
     (case estimate_dimensions sqrt_est this frameSize of
        Inl e \<Rightarrow> Inl e
      | Inr this' \<Rightarrow>
          (let bfh = make_file_header frameSize;
               bih = make_info_header this' frameSize
           in if create_ok then
                (case bgr_to_rgb frameData frameSize of
                   Inl e \<Rightarrow> Inl e
                 | Inr rgbData \<Rightarrow>
                     Inr (this',
                          Some \<lparr>fileName = ''captured_frame.bmp'',
                                chunks = [FileHeader bfh, InfoHeader bih,
                                          Bytes (take (nat (sint frameSize)) rgbData)]\<rparr>))
              else Inr (this', None)))"

text \<open>
  \<^verbatim>\<open>CFrameSavingCallback::ProcessFrame\<close>: the base class's processing first, then the
  save of the first frame.
\<close>

definition ProcessFrame ::
  "(LONG \<Rightarrow> LONG) \<Rightarrow> bool \<Rightarrow> CFrameSavingCallback \<Rightarrow> BYTE list option \<Rightarrow> LONG
   \<Rightarrow> fault + (CFrameSavingCallback \<times> written_file option)" where
  "ProcessFrame sqrt_est create_ok this frameData frameSize =
     (case CSampleGrabberCB_ProcessFrame frameData frameSize of
        Inl e \<Rightarrow> Inl e
      | Inr u \<Rightarrow>
          if \<not> m_frameSaved this \<and> frameData \<noteq> None \<and> 0 <s frameSize then
            (case SaveFrameAsBMP sqrt_est create_ok this frameData frameSize of
               Inl e \<Rightarrow> Inl e
             | Inr (this', file) \<Rightarrow> Inr (this'\<lparr>m_frameSaved := True\<rparr>, file))
          else Inr (this, None))"








text \<open>The object as its constructor leaves it; \<open>tick\<close> is the clock at construction.\<close>

definition new_CFrameSavingCallback :: "DWORD \<Rightarrow> CFrameSavingCallback" where
  "new_CFrameSavingCallback tick =
     \<lparr>m_refCount = 1, m_frameCount = 0, m_startTime = tick, m_lastFrameTime = 0,
      m_frameSaved = False, m_imageWidth = 0, m_imageHeight = 0\<rparr>"

text \<open>A frame of 8 bytes, and what saving it as the first frame leaves behind.\<close>

definition example_frame :: "BYTE list" where
  "example_frame = [10, 20, 30, 40, 50, 60, 70, 80]"

definition example_file :: written_file where
  "example_file =
     \<lparr>fileName = ''captured_frame.bmp'',
      chunks = [FileHeader \<lparr>bfType = 0x4D42, bfSize = 62, bfReserved1 = 0, bfReserved2 = 0,
                            bfOffBits = 54\<rparr>,
                InfoHeader \<lparr>biSize = 40, biWidth = 1, biHeight = - 2, biPlanes = 1,
                            biBitCount = 24, biCompression = 0, biSizeImage = 8,
                            biXPelsPerMeter = 0, biYPelsPerMeter = 0, biClrUsed = 0,
                            biClrImportant = 0\<rparr>,
                Bytes [30, 20, 10, 60, 50, 40, 0, 0]]\<rparr>"

definition example_saved :: CFrameSavingCallback where
  "example_saved =
     (new_CFrameSavingCallback 1000)\<lparr>m_frameSaved := True, m_imageWidth := 1,
        m_imageHeight := 2\<rparr>"


section \<open>The camera class \<^verbatim>\<open>DirectShowCamera\<close>\<close>

subsection \<open>The framework\<close>

text \<open>
  DirectShow is not part of the program. Every call into it is a \<open>framework_call\<close>; a
  \<open>framework\<close> gives the status code each call returns, whether
  \<^verbatim>\<open>CreateClassEnumerator\<close> stores an enumerator, how many video input devices the
  enumerator yields and the \<^verbatim>\<open>FriendlyName\<close> each one reports. A device is known by its
  position in the enumeration. The identifiers are the GUIDs the calls are given.
  A filter object is known by how it was obtained: bound from the moniker of a device,
  or created as an instance of a class; a \<^verbatim>\<open>CComPtr<IBaseFilter>\<close> is such an object or
  null.
\<close>

datatype GUID =
  CLSID_SystemDeviceEnum | CLSID_VideoInputDeviceCategory | CLSID_SampleGrabber
| CLSID_NullRenderer | IID_ISampleGrabber | IID_IPropertyBag | IID_IBaseFilter
| MEDIATYPE_Video | MEDIASUBTYPE_RGB24 | FORMAT_VideoInfo | PIN_CATEGORY_CAPTURE
| Other_GUID nat

datatype IBaseFilter = Device nat | Instance GUID

datatype framework_call =
  CoCreateInstance GUID
| CreateClassEnumerator GUID
| EnumNext
| BindToStorage nat GUID
| PropertyBagRead nat string
| BindToObject nat GUID
| AddFilter "IBaseFilter option" string
| QueryInterface GUID
| SetMediaType GUID GUID GUID
| SetCallback
| SetBufferSamples bool
| RenderStream GUID GUID "IBaseFilter option" "IBaseFilter option" "IBaseFilter option"

record framework =
  response :: "framework_call \<Rightarrow> HRESULT"
  class_enumerator :: bool
  device_count :: nat
  friendly_name :: "nat \<Rightarrow> string"

record CameraInfo =
  friendlyName :: string
  devicePath :: string
  moniker :: nat
  index :: int

text \<open>
  The object: the three filters by the object they point to, every other \<^verbatim>\<open>CComPtr\<close> and
  the callback pointer by whether it is non-null. The field \<open>calls\<close> is not a member of
  the class: it records the framework calls made, in order and with their arguments, so
  that their order can be stated. A call through a null \<^verbatim>\<open>CComPtr\<close> is a fault. A call
  that creates or binds an object leaves the pointer null when it fails.
\<close>

record DirectShowCamera =
  m_pGraph :: bool
  m_pCaptureGraphBuilder :: bool
  m_pMediaControl :: bool
  m_pMediaEvent :: bool
  m_pCameraFilter :: "IBaseFilter option"
  m_pSampleGrabberFilter :: "IBaseFilter option"
  m_pSampleGrabber :: bool
  m_pNullRenderer :: "IBaseFilter option"
  m_pCallback :: bool
  m_isInitialized :: bool
  m_isCapturing :: bool
  calls :: "framework_call list"

definition call :: "framework_call \<Rightarrow> DirectShowCamera \<Rightarrow> DirectShowCamera" where
  "call c this = this\<lparr>calls := calls this @ [c]\<rparr>"

subsection \<open>Enumerating the cameras\<close>

text \<open>
  The loop \<^verbatim>\<open>while (pEnum->Next(1, &pMoniker, NULL) == S_OK)\<close>: \<open>remaining\<close> devices are
  still to come, \<open>idx\<close> is the local \<^verbatim>\<open>index\<close> that counts every device, readable or
  not, and the last
  \<^verbatim>\<open>Next\<close> is the one that ends the loop.
\<close>

fun enumerate_loop ::
  "framework \<Rightarrow> nat \<Rightarrow> int \<Rightarrow> DirectShowCamera \<Rightarrow> CameraInfo list
   \<Rightarrow> DirectShowCamera \<times> CameraInfo list" where
  "enumerate_loop fw 0 idx this cameras = (call EnumNext this, cameras)"
| "enumerate_loop fw (Suc remaining) idx this cameras =
     (let this1 = call (BindToStorage (nat idx) IID_IPropertyBag) (call EnumNext this) in
      if SUCCEEDED (response fw (BindToStorage (nat idx) IID_IPropertyBag)) then
        (let this2 = call (PropertyBagRead (nat idx) ''FriendlyName'') this1 in
         if SUCCEEDED (response fw (PropertyBagRead (nat idx) ''FriendlyName'')) then
           enumerate_loop fw remaining (idx + 1) this2
             (cameras @ [\<lparr>friendlyName = friendly_name fw (nat idx), devicePath = [],
                            moniker = nat idx, index = idx\<rparr>])
         else enumerate_loop fw remaining (idx + 1) this2 cameras)
      else enumerate_loop fw remaining (idx + 1) this1 cameras)"

definition Enumeratecameras ::
  "framework \<Rightarrow> DirectShowCamera \<Rightarrow> CameraInfo list
   \<Rightarrow> fault + (HRESULT \<times> DirectShowCamera \<times> CameraInfo list)" where
  "Enumeratecameras fw this cameras =
     (let cameras0 = [];
          this1 = call (CoCreateInstance CLSID_SystemDeviceEnum) this;
          hr = response fw (CoCreateInstance CLSID_SystemDeviceEnum)
      in if FAILED hr then Inr (hr, this1, cameras0)
         else
           (let this2 = call (CreateClassEnumerator CLSID_VideoInputDeviceCategory) this1;
                hr = response fw (CreateClassEnumerator CLSID_VideoInputDeviceCategory)
            in if hr = S_FALSE then Inr (VFW_E_NOT_FOUND, this2, cameras0)
               else if \<not> class_enumerator fw then Inl AccessViolation
               else
                 (case enumerate_loop fw (device_count fw) 0 this2 cameras0 of
                    (this3, cameras1) \<Rightarrow>
                      Inr (if cameras1 = [] then VFW_E_NOT_FOUND else S_OK, this3, cameras1))))"

subsection \<open>Building the graph\<close>

definition SelectCamera ::
  "framework \<Rightarrow> int \<Rightarrow> DirectShowCamera \<Rightarrow> fault + (HRESULT \<times> DirectShowCamera)" where
  "SelectCamera fw cameraIndex this =
     (case Enumeratecameras fw this [] of
        Inl e \<Rightarrow> Inl e
      | Inr (hr, this1, cameras) \<Rightarrow>
          if FAILED hr then Inr (hr, this1)
          else if cameraIndex < 0 \<or> int (length cameras) \<le> cameraIndex
          then Inr (E_INVALIDARG, this1)
          else
            (let m = moniker (cameras ! nat cameraIndex);
                 hr = response fw (BindToObject m IID_IBaseFilter);
                 this2 = (call (BindToObject m IID_IBaseFilter) this1)
                           \<lparr>m_pCameraFilter := (if SUCCEEDED hr then Some (Device m) else None)\<rparr>
             in if FAILED hr then Inr (hr, this2)
                else if \<not> m_pGraph this2 then Inl AccessViolation
                else Inr (response fw (AddFilter (m_pCameraFilter this2) ''Camera''),
                          call (AddFilter (m_pCameraFilter this2) ''Camera'') this2)))"

definition SetupSampleGrabber ::
  "framework \<Rightarrow> GUID \<Rightarrow> DirectShowCamera \<Rightarrow> fault + (HRESULT \<times> DirectShowCamera)" where
  "SetupSampleGrabber fw mediaSubType this =
     (let hr = response fw (CoCreateInstance CLSID_SampleGrabber);
          this1 = (call (CoCreateInstance CLSID_SampleGrabber) this)
                    \<lparr>m_pSampleGrabberFilter :=
                       (if SUCCEEDED hr then Some (Instance CLSID_SampleGrabber) else None)\<rparr>
      in if FAILED hr then Inr (hr, this1)
         else
      (let hr = response fw (QueryInterface IID_ISampleGrabber);
           this2 = (call (QueryInterface IID_ISampleGrabber) this1)
                     \<lparr>m_pSampleGrabber := SUCCEEDED hr\<rparr>
       in if FAILED hr then Inr (hr, this2)
          else
      (let hr = response fw (SetMediaType MEDIATYPE_Video mediaSubType FORMAT_VideoInfo);
           this3 = call (SetMediaType MEDIATYPE_Video mediaSubType FORMAT_VideoInfo) this2
       in if FAILED hr then Inr (hr, this3)
          else
      (let this4 = this3\<lparr>m_pCallback := True\<rparr>;
           hr = response fw SetCallback;
           this5 = call SetCallback this4
       in if FAILED hr then Inr (hr, this5)
          else
      (let hr = response fw (SetBufferSamples False);
           this6 = call (SetBufferSamples False) this5
       in if FAILED hr then Inr (hr, this6)
          else if \<not> m_pGraph this6 then Inl AccessViolation
          else Inr (response fw (AddFilter (m_pSampleGrabberFilter this6) ''Sample Grabber''),
                    call (AddFilter (m_pSampleGrabberFilter this6) ''Sample Grabber'')
                      this6))))))"

definition SetupNullRenderer ::
  "framework \<Rightarrow> DirectShowCamera \<Rightarrow> fault + (HRESULT \<times> DirectShowCamera)" where
  "SetupNullRenderer fw this =
     (let hr = response fw (CoCreateInstance CLSID_NullRenderer);
          this1 = (call (CoCreateInstance CLSID_NullRenderer) this)
                    \<lparr>m_pNullRenderer :=
                       (if SUCCEEDED hr then Some (Instance CLSID_NullRenderer) else None)\<rparr>
      in if FAILED hr then Inr (hr, this1)
         else if \<not> m_pGraph this1 then Inl AccessViolation
         else Inr (response fw (AddFilter (m_pNullRenderer this1) ''Null Renderer''),
                   call (AddFilter (m_pNullRenderer this1) ''Null Renderer'') this1))"

text \<open>
  \<^verbatim>\<open>ConnectFilters\<close> hands the three filters to \<^verbatim>\<open>RenderStream\<close> as they are, null or not,
  in the order source, intermediate, sink.
\<close>

definition ConnectFilters ::
  "framework \<Rightarrow> DirectShowCamera \<Rightarrow> fault + (HRESULT \<times> DirectShowCamera)" where
  "ConnectFilters fw this =
     (if \<not> m_pCaptureGraphBuilder this then Inl AccessViolation
      else
        (let c = RenderStream PIN_CATEGORY_CAPTURE MEDIATYPE_Video
                   (m_pCameraFilter this) (m_pSampleGrabberFilter this) (m_pNullRenderer this)
         in Inr (response fw c, call c this)))"

definition BuildFilterGraph ::
  "framework \<Rightarrow> DirectShowCamera \<Rightarrow> fault + (HRESULT \<times> DirectShowCamera)" where
  "BuildFilterGraph fw this =
     (case (if m_pCameraFilter this = None then SelectCamera fw 0 this else Inr (S_OK, this)) of
        Inl e \<Rightarrow> Inl e
      | Inr (hr, this1) \<Rightarrow>
          if FAILED hr then Inr (hr, this1)
          else
            (case SetupSampleGrabber fw MEDIASUBTYPE_RGB24 this1 of
               Inl e \<Rightarrow> Inl e
             | Inr (hr, this2) \<Rightarrow>
                 if FAILED hr then Inr (hr, this2)
                 else
                   (case SetupNullRenderer fw this2 of
                      Inl e \<Rightarrow> Inl e
                    | Inr (hr, this3) \<Rightarrow>
                        if FAILED hr then Inr (hr, this3)
                        else ConnectFilters fw this3)))"

text \<open>
  The order of the steps as the specification words it: the steps run one after the
  other, the first one whose status code is a failure ends the run with that code, and
  the last step's code is returned as it is.
\<close>

fun first_failure ::
  "(DirectShowCamera \<Rightarrow> fault + (HRESULT \<times> DirectShowCamera)) list
   \<Rightarrow> DirectShowCamera \<Rightarrow> fault + (HRESULT \<times> DirectShowCamera)" where
  "first_failure [] this = Inr (S_OK, this)"
| "first_failure [step] this = step this"
| "first_failure (step # next_step # steps) this =
     (case step this of
        Inl e \<Rightarrow> Inl e
      | Inr (hr, this1) \<Rightarrow>
          if FAILED hr then Inr (hr, this1) else first_failure (next_step # steps) this1)"

subsection \<open>Devices that can be read, and example frameworks\<close>

definition readable :: "framework \<Rightarrow> int \<Rightarrow> bool" where
  "readable fw i \<longleftrightarrow>
     SUCCEEDED (response fw (BindToStorage (nat i) IID_IPropertyBag))
   \<and> SUCCEEDED (response fw (PropertyBagRead (nat i) ''FriendlyName''))"

definition camera_info :: "framework \<Rightarrow> int \<Rightarrow> CameraInfo" where
  "camera_info fw i =
     \<lparr>friendlyName = friendly_name fw (nat i), devicePath = [], moniker = nat i, index = i\<rparr>"

definition uninitialised_COM :: framework where
  "uninitialised_COM =
     \<lparr>response = (\<lambda>c. 0x800401F0), class_enumerator = False, device_count = 0,
      friendly_name = (\<lambda>k. [])\<rparr>"

definition three_devices :: framework where
  "three_devices =
     \<lparr>response = (\<lambda>c. if c = PropertyBagRead 1 ''FriendlyName'' then E_FAIL else S_OK),
      class_enumerator = True, device_count = 3,
      friendly_name = (\<lambda>k. if k = 0 then ''Integrated Camera''
                           else if k = 2 then ''USB Camera'' else [])\<rparr>"

definition new_DirectShowCamera :: DirectShowCamera where
  "new_DirectShowCamera =
     \<lparr>m_pGraph = False, m_pCaptureGraphBuilder = False, m_pMediaControl = False,
      m_pMediaEvent = False, m_pCameraFilter = None, m_pSampleGrabberFilter = None,
      m_pSampleGrabber = False, m_pNullRenderer = None, m_pCallback = False,
      m_isInitialized = False, m_isCapturing = False, calls = []\<rparr>"

subsection \<open>The steps in the record of calls\<close>

text \<open>
  The four steps of a build. A step is recognised in the record of calls by the first
  framework call it makes; every \<^verbatim>\<open>RenderStream\<close> call counts as a connection.
\<close>

datatype build_step = Select_camera | Setup_sample_grabber | Setup_null_renderer | Connect_filters

fun step_start :: "framework_call \<Rightarrow> build_step option" where
  "step_start (CoCreateInstance clsid) =
     (if clsid = CLSID_SystemDeviceEnum then Some Select_camera
      else if clsid = CLSID_SampleGrabber then Some Setup_sample_grabber
      else if clsid = CLSID_NullRenderer then Some Setup_null_renderer
      else None)"
| "step_start (RenderStream pCategory pType pSource pIntermediate pSink) = Some Connect_filters"
| "step_start (CreateClassEnumerator clsid) = None"
| "step_start EnumNext = None"
| "step_start (BindToStorage m iid) = None"
| "step_start (PropertyBagRead m pszPropName) = None"
| "step_start (BindToObject m iid) = None"
| "step_start (AddFilter pFilter pName) = None"
| "step_start (QueryInterface iid) = None"
| "step_start (SetMediaType majortype subtype formattype) = None"
| "step_start SetCallback = None"
| "step_start (SetBufferSamples bufferThem) = None"

definition step_starts :: "framework_call list \<Rightarrow> build_step list" where
  "step_starts cs = List.map_filter step_start cs"

definition expected_starts :: "DirectShowCamera \<Rightarrow> build_step list" where
  "expected_starts this =
     (if m_pCameraFilter this = None then [Select_camera] else [])
     @ [Setup_sample_grabber, Setup_null_renderer, Connect_filters]"

definition build_steps ::
  "framework \<Rightarrow> DirectShowCamera
   \<Rightarrow> (DirectShowCamera \<Rightarrow> fault + (HRESULT \<times> DirectShowCamera)) list" where
  "build_steps fw this =
     (if m_pCameraFilter this = None then [SelectCamera fw 0] else [])
     @ [SetupSampleGrabber fw MEDIASUBTYPE_RGB24, SetupNullRenderer fw, ConnectFilters fw]"

text \<open>The steps that follow the selection of the camera.\<close>

definition later_steps ::
  "framework \<Rightarrow> (DirectShowCamera \<Rightarrow> fault + (HRESULT \<times> DirectShowCamera)) list" where
  "later_steps fw =
     [SetupSampleGrabber fw MEDIASUBTYPE_RGB24, SetupNullRenderer fw, ConnectFilters fw]"

text \<open>Camera 0 is the first device of the enumeration whose name can be read.\<close>

definition first_readable :: "framework \<Rightarrow> int option" where
  "first_readable fw = List.find (readable fw) [0..int (device_count fw) - 1]"

text \<open>
  Example frameworks: one on which the null renderer is not registered, one on which
  every call succeeds, and one that cannot connect the filters. The example object is
  as \<^verbatim>\<open>Initialize\<close> leaves it when it succeeds.
\<close>

definition null_renderer_missing :: framework where
  "null_renderer_missing =
     \<lparr>response = (\<lambda>c. if c = CoCreateInstance CLSID_NullRenderer then 0x80040154 else S_OK),
      class_enumerator = True, device_count = 1, friendly_name = (\<lambda>k. ''USB Camera'')\<rparr>"

definition one_camera :: framework where
  "one_camera =
     \<lparr>response = (\<lambda>c. S_OK), class_enumerator = True, device_count = 1,
      friendly_name = (\<lambda>k. ''USB Camera'')\<rparr>"

definition cannot_connect :: framework where
  "cannot_connect =
     \<lparr>response = (\<lambda>c. if step_start c = Some Connect_filters then VFW_E_CANNOT_CONNECT
                       else S_OK),
      class_enumerator = True, device_count = 1, friendly_name = (\<lambda>k. ''USB Camera'')\<rparr>"

definition initialized_camera :: DirectShowCamera where
  "initialized_camera =
     new_DirectShowCamera\<lparr>m_pGraph := True, m_pCaptureGraphBuilder := True,
       m_pMediaControl := True, m_pMediaEvent := True, m_isInitialized := True\<rparr>"

definition example_calls :: "framework_call list" where
  "example_calls =
     [CoCreateInstance CLSID_SystemDeviceEnum,
      CreateClassEnumerator CLSID_VideoInputDeviceCategory,
      EnumNext, BindToStorage 0 IID_IPropertyBag, PropertyBagRead 0 ''FriendlyName'',
      EnumNext, BindToObject 0 IID_IBaseFilter, AddFilter (Some (Device 0)) ''Camera'',
      CoCreateInstance CLSID_SampleGrabber, QueryInterface IID_ISampleGrabber,
      SetMediaType MEDIATYPE_Video MEDIASUBTYPE_RGB24 FORMAT_VideoInfo,
      SetCallback, SetBufferSamples False,
      AddFilter (Some (Instance CLSID_SampleGrabber)) ''Sample Grabber'',
      CoCreateInstance CLSID_NullRenderer]"

definition example_RenderStream :: framework_call where
  "example_RenderStream =
     RenderStream PIN_CATEGORY_CAPTURE MEDIATYPE_Video (Some (Device 0))
       (Some (Instance CLSID_SampleGrabber)) (Some (Instance CLSID_NullRenderer))"

definition example_built :: DirectShowCamera where
  "example_built =
     initialized_camera\<lparr>m_pCameraFilter := Some (Device 0),
       m_pSampleGrabberFilter := Some (Instance CLSID_SampleGrabber),
       m_pSampleGrabber := True, m_pNullRenderer := Some (Instance CLSID_NullRenderer),
       m_pCallback := True,
       calls := example_calls
         @ [AddFilter (Some (Instance CLSID_NullRenderer)) ''Null Renderer'',
            example_RenderStream]\<rparr>"

definition example_unbuilt :: DirectShowCamera where
  "example_unbuilt =
     initialized_camera\<lparr>m_pCameraFilter := Some (Device 0),
       m_pSampleGrabberFilter := Some (Instance CLSID_SampleGrabber),
       m_pSampleGrabber := True, m_pCallback := True, calls := example_calls\<rparr>"

section \<open>Error descriptions\<close>

text \<open>
  \<^verbatim>\<open>ss << std::hex << hr\<close> prints a \<^verbatim>\<open>long\<close> in base 16 as the stream library does:
  the 32-bit two's complement pattern read as unsigned, lower-case digits, no leading
  zeros, no prefix.
\<close>

definition hex_digit :: "nat \<Rightarrow> char" where
  "hex_digit d = ''0123456789abcdef'' ! d"

fun hex_of_nat :: "nat \<Rightarrow> string" where
  "hex_of_nat n =
     (if n < 16 then [hex_digit n] else hex_of_nat (n div 16) @ [hex_digit (n mod 16)])"

declare hex_of_nat.simps [simp del]

definition hex_of_long :: "LONG \<Rightarrow> string" where
  "hex_of_long x = hex_of_nat (unat x)"

text \<open>Reading a string of hexadecimal digits back, to say what the rendering denotes.\<close>

definition hex_digit_val :: "char \<Rightarrow> nat" where
  "hex_digit_val c =
     (let k = of_char c :: nat in if k < 58 then k - 48 else k - 87)"

definition hex_to_nat :: "string \<Rightarrow> nat" where
  "hex_to_nat s = foldl (\<lambda>acc c. 16 * acc + hex_digit_val c) 0 s"

definition GetErrorDescription :: "HRESULT \<Rightarrow> string" where
  "GetErrorDescription hr =
     ''HRESULT: 0x'' @ hex_of_long hr @
     (if hr = VFW_E_NOT_FOUND then '' (No capture devices found)''
      else if hr = E_NOINTERFACE then '' (Interface not supported)''
      else if hr = E_INVALIDARG then '' (Invalid argument)''
      else if hr = VFW_E_CANNOT_CONNECT then '' (Cannot connect filters)''
      else '' (Unknown error)'')"

section \<open>Operations against a platform\<close>

text \<open>
  The modelled operations of the program, each run on a platform: the framework and
  what \<^verbatim>\<open>GetTickCount()\<close> returns. An operation depends on the platform when two
  platforms make it behave differently.
\<close>

datatype operation =
  Op_GetErrorDescription HRESULT
| Op_CalculateAverageBrightness "BYTE list option" LONG
| Op_GetAverageFPS CSampleGrabberCB
| Op_Enumeratecameras DirectShowCamera "CameraInfo list"
| Op_BuildFilterGraph DirectShowCamera

datatype observation =
  Obs_description string
| Obs_brightness "fault + double"
| Obs_fps double
| Obs_cameras "fault + (HRESULT \<times> DirectShowCamera \<times> CameraInfo list)"
| Obs_graph "fault + (HRESULT \<times> DirectShowCamera)"

record platform =
  dshow :: framework
  tick_count :: DWORD

fun perform :: "platform \<Rightarrow> operation \<Rightarrow> observation" where
  "perform p (Op_GetErrorDescription hr) = Obs_description (GetErrorDescription hr)"
| "perform p (Op_CalculateAverageBrightness frameData frameSize) =
     Obs_brightness (CalculateAverageBrightness frameData frameSize)"
| "perform p (Op_GetAverageFPS this) = Obs_fps (GetAverageFPS (tick_count p) this)"
| "perform p (Op_Enumeratecameras this cameras) =
     Obs_cameras (Enumeratecameras (dshow p) this cameras)"
| "perform p (Op_BuildFilterGraph this) = Obs_graph (BuildFilterGraph (dshow p) this)"

definition depends_on_platform :: "operation \<Rightarrow> bool" where
  "depends_on_platform operation \<longleftrightarrow> (\<exists>p q. perform p operation \<noteq> perform q operation)"

definition failing_platform :: "HRESULT \<Rightarrow> DWORD \<Rightarrow> platform" where
  "failing_platform hr tick =
     \<lparr>dshow = \<lparr>response = (\<lambda>c. hr), class_enumerator = False, device_count = 0,
               friendly_name = (\<lambda>k. [])\<rparr>,
      tick_count = tick\<rparr>"

section \<open>Properties: frame rate\<close>

lemma ddiv_nonzero: "b \<noteq> 0 \<Longrightarrow> ddiv a b = Fin (a / b)"
  by (simp add: ddiv_def)

text \<open>
  Claim C7. \<^verbatim>\<open>GetAverageFPS\<close> never divides by zero: when the elapsed tick count is zero
  it returns 0.0, and when it is positive it returns the frame count times 1000 divided
  by the elapsed milliseconds; in both cases the result is an ordinary number.
\<close>

theorem GetAverageFPS_no_zero_division:
  "GetAverageFPS tick this =
     (if tick - m_startTime this = 0 then Fin 0
      else Fin (real_of_int (sint (m_frameCount this)) * 1000
                / real (unat (tick - m_startTime this))))"
proof (cases "tick - m_startTime this = 0")
  case True
  then show ?thesis by (simp add: GetAverageFPS_def)
next
  case False
  then have pos: "0 < tick - m_startTime this"
    by (simp add: word_greater_zero_iff)
  from False have "real (unat (tick - m_startTime this)) \<noteq> 0"
    by (simp add: unsigned_eq_0_iff)
  then show ?thesis using False pos
    by (simp add: GetAverageFPS_def Let_def ddiv_nonzero)
qed

theorem GetAverageFPS_no_zero_division_witness:
  "GetAverageFPS 5000 \<lparr>m_refCount = 1, m_frameCount = 60, m_startTime = 3000,
       m_lastFrameTime = 4990\<rparr> = Fin 30
   \<and> GetAverageFPS 3000 \<lparr>m_refCount = 1, m_frameCount = 60, m_startTime = 3000,
       m_lastFrameTime = 0\<rparr> = Fin 0"
  using GetAverageFPS_no_zero_division [of 5000 "\<lparr>m_refCount = 1, m_frameCount = 60,
      m_startTime = 3000, m_lastFrameTime = 4990\<rparr>"]
    GetAverageFPS_no_zero_division [of 3000 "\<lparr>m_refCount = 1, m_frameCount = 60,
      m_startTime = 3000, m_lastFrameTime = 0\<rparr>"]
  by simp

section \<open>Properties: brightness\<close>

lemma sint_plus_le:
  fixes i n :: "32 word"
  shows "sint i + 1 \<le> sint n \<Longrightarrow> sint (i + 1) = sint i + 1"
    and "sint i + 2 \<le> sint n \<Longrightarrow> sint (i + 2) = sint i + 2"
    and "sint i + 3 \<le> sint n \<Longrightarrow> sint (i + 3) = sint i + 3"
  using sint_lt [of n] by (simp_all add: sint_plus1 sint_plus2 sint_plus3)

lemma sint_of_nat32: "n < 2 ^ 31 \<Longrightarrow> sint (word_of_nat n :: 32 word) = int n"
  by (simp add: signed_of_nat signed_take_bit_int_eq_self)

lemma rd_at:
  "sint j = int k \<Longrightarrow> rd (Some bs) j = (if k < length bs then Some (bs ! k) else None)"
  by (simp add: rd_def)

lemma brightness_loop_exit:
  "sint n \<le> sint i \<Longrightarrow> brightness_loop fd n i t = Inr t"
  by (subst brightness_loop.simps) (simp add: word_sless_alt)

lemma brightness_loop_skip:
  assumes "sint i < sint n" "sint n \<le> sint i + 2" "sint i + 3 < 2 ^ 31"
  shows "brightness_loop fd n i t = Inr t"
proof -
  have s2: "sint (i + 2) = sint i + 2" and s3: "sint (i + 3) = sint i + 3"
    using assms by (simp_all add: sint_plus2 sint_plus3)
  have "brightness_loop fd n i t = brightness_loop fd n (i + 3) t"
    using assms by (subst brightness_loop.simps) (simp add: word_sless_alt s2)
  also have "\<dots> = Inr t"
    using assms by (intro brightness_loop_exit) (simp add: s3)
  finally show ?thesis .
qed

lemma brightness_loop_body:
  assumes "sint i + 2 < sint n"
    and "rd fd i = Some b0" and "rd fd (i + 1) = Some b1" and "rd fd (i + 2) = Some b2"
  shows "brightness_loop fd n i t
         = brightness_loop fd n (i + 3) (t + word_of_nat ((unat b0 + unat b1 + unat b2) div 3))"
proof -
  have "sint (i + 2) = sint i + 2" using assms(1) by (intro sint_plus_le(2) [of i n]) simp
  then show ?thesis
    using assms by (subst brightness_loop.simps) (simp add: word_sless_alt)
qed

lemma brightness_loop_wrap:
  assumes "sint i = 2 ^ 31 - 2" "sint n = 2 ^ 31 - 1"
  shows "brightness_loop fd n i t = Inl AccessViolation"
proof -
  have s1: "sint (i + 1) = 2 ^ 31 - 1" and s2: "sint (i + 2) = - (2 ^ 31)"
    using assms(1) by (simp_all add: sint_plus1 sint_plus2)
  have "rd fd (i + 2) = None" by (simp add: rd_def s2 split: option.splits)
  then show ?thesis
    using assms by (subst brightness_loop.simps)
      (simp add: word_sless_alt s1 s2 split: option.splits)
qed

lemma long_max_mod3:
  "int k = 2 ^ 31 - 1 \<Longrightarrow> k mod 3 = 1"
  "int k = 2 ^ 31 - 2 \<Longrightarrow> k mod 3 = 0"
proof -
  have "int k = 2147483647 \<Longrightarrow> k mod 3 = 1" by presburger
  then show "int k = 2 ^ 31 - 1 \<Longrightarrow> k mod 3 = 1" by simp
  have "int k = 2147483646 \<Longrightarrow> k mod 3 = 0" by presburger
  then show "int k = 2 ^ 31 - 2 \<Longrightarrow> k mod 3 = 0" by simp
qed

text \<open>
  The loop from a pixel boundary: it adds up the brightness of the complete pixels that
  remain, unless the frame has \<open>2^31 - 1\<close> bytes, where \<^verbatim>\<open>i + 2\<close> overflows and the
  read faults.
\<close>

lemma brightness_loop_from:
  assumes "sint i = int (length pre)" "sint n = int (length pre + length rest)"
    and "length pre mod 3 = 0"
  shows "brightness_loop (Some (pre @ rest @ extra)) n i t
         = (if sint n = 2 ^ 31 - 1 then Inl AccessViolation
            else Inr (t + word_of_nat (sum_list (pixel_brightness rest))))"
  using assms
proof (induction rest arbitrary: pre i t rule: pixel_brightness.induct)
  case (1 b0 b1 b2 rest)
  let ?bs = "pre @ (b0 # b1 # b2 # rest) @ extra"
  let ?v = "(unat b0 + unat b1 + unat b2) div 3"
  have le: "sint i + 3 \<le> sint n" using "1.prems" by simp
  have s: "sint (i + 1) = int (length pre + 1)" "sint (i + 2) = int (length pre + 2)"
    "sint (i + 3) = int (length pre + 3)"
    using le "1.prems"(1) sint_plus_le [of i n] by simp_all
  have "brightness_loop (Some ?bs) n i t = brightness_loop (Some ?bs) n (i + 3) (t + word_of_nat ?v)"
    using le
    by (intro brightness_loop_body)
      (simp_all add: rd_at [OF "1.prems"(1)] rd_at [OF s(1)] rd_at [OF s(2)] nth_append)
  also have "\<dots> = brightness_loop (Some ((pre @ [b0, b1, b2]) @ rest @ extra)) n (i + 3)
                      (t + word_of_nat ?v)"
    by simp
  also have "\<dots> = (if sint n = 2 ^ 31 - 1 then Inl AccessViolation
       else Inr (t + word_of_nat ?v + word_of_nat (sum_list (pixel_brightness rest))))"
    using "1.prems" s(3) by (intro "1.IH") simp_all
  finally show ?case by (simp add: add.assoc)
next
  case (2 pre i t)
  then have "sint n \<noteq> 2 ^ 31 - 1" using long_max_mod3(1) [of "length pre"] by auto
  then show ?case using 2 by (simp add: brightness_loop_exit)
next
  case (3 v pre i t)
  have b: "sint n < 2 ^ 31" using sint_lt [of n] by simp
  show ?case
  proof (cases "sint n = 2 ^ 31 - 1")
    case True
    then show ?thesis
      using 3 brightness_loop_wrap [of i n] by simp
  next
    case False
    have "sint n \<noteq> 2 ^ 31 - 2"
      using "3.prems"(2,3) long_max_mod3(2) [of "length pre + 1"] by auto
    then have "sint i + 3 < 2 ^ 31" using False b "3.prems"(1,2) by simp
    then show ?thesis using False "3.prems" by (simp add: brightness_loop_skip)
  qed
next
  case (4 v va pre i t)
  have b: "sint n < 2 ^ 31" using sint_lt [of n] by simp
  have "(length pre + 2) mod 3 = 2" using "4.prems"(3) by presburger
  then have "sint n \<noteq> 2 ^ 31 - 1" "sint n \<noteq> 2 ^ 31 - 2"
    using "4.prems"(2) long_max_mod3 [of "length pre + 2"] by auto
  then show ?case using b "4.prems" by (simp add: brightness_loop_skip)
qed

text \<open>What the function returns on a buffer that holds at least frameSize bytes.\<close>

lemma CalculateAverageBrightness_wrapped:
  assumes "0 \<le> sint frameSize" "nat (sint frameSize) \<le> length bs"
  shows "CalculateAverageBrightness (Some bs) frameSize
         = (if sint frameSize = 2 ^ 31 - 1 then Inl AccessViolation
            else Inr (if 0 < sint frameSize
                then ddiv (real_of_int (sint (word_of_nat
                          (sum_list (pixel_brightness (take (nat (sint frameSize)) bs))) :: LONG)))
                       (real_of_int (sint frameSize div 3))
                else Fin 0))"
proof -
  let ?n = "nat (sint frameSize)"
  have "brightness_loop (Some ([] @ take ?n bs @ drop ?n bs)) frameSize 0 0
        = (if sint frameSize = 2 ^ 31 - 1 then Inl AccessViolation
           else Inr (0 + word_of_nat (sum_list (pixel_brightness (take ?n bs)))))"
    using assms by (intro brightness_loop_from) simp_all
  then have l: "brightness_loop (Some bs) frameSize 0 0
        = (if sint frameSize = 2 ^ 31 - 1 then Inl AccessViolation
           else Inr (word_of_nat (sum_list (pixel_brightness (take ?n bs)))))" by simp
  show ?thesis by (simp add: CalculateAverageBrightness_def l word_sless_alt)
qed

lemma sum_pixel_brightness_le: "sum_list (pixel_brightness bs) \<le> 255 * (length bs div 3)"
proof (induction bs rule: pixel_brightness.induct)
  case (1 b0 b1 b2 rest)
  have "unat b0 \<le> 255" "unat b1 \<le> 255" "unat b2 \<le> 255"
    using unsigned_less [of b0, where ?'a = nat] unsigned_less [of b1, where ?'a = nat]
      unsigned_less [of b2, where ?'a = nat] by simp_all
  then have "(unat b0 + unat b1 + unat b2) div 3 \<le> 255" by simp
  then show ?case using 1 by simp
qed simp_all

text \<open>No overflow: the result is the mean.\<close>

lemma CalculateAverageBrightness_mean:
  assumes "0 < sint frameSize" "nat (sint frameSize) \<le> length bs"
    and "sint frameSize mod 3 = 0"
    and "sum_list (pixel_brightness (take (nat (sint frameSize)) bs)) < 2 ^ 31"
  shows "CalculateAverageBrightness (Some bs) frameSize
         = Inr (Fin (real (sum_list (pixel_brightness (take (nat (sint frameSize)) bs)))
                     / real_of_int (sint frameSize div 3)))"
proof -
  have "sint frameSize \<noteq> 2147483647" using assms(3) by presburger
  then have "sint frameSize \<noteq> 2 ^ 31 - 1" by simp
  moreover have "3 \<le> sint frameSize" using assms(1,3) by presburger
  then have "real_of_int (sint frameSize div 3) \<noteq> 0" by simp
  ultimately show ?thesis
    using assms by (simp add: CalculateAverageBrightness_wrapped sint_of_nat32 ddiv_nonzero)
qed

text \<open>
  In particular on every frame of at most 8421504 pixels, whose brightness sum cannot
  exceed \<open>2^31 - 1\<close>; and a frame of size 0 gives 0.0 whatever the pointer.
\<close>

lemma CalculateAverageBrightness_mean_small:
  assumes "0 < sint frameSize" "nat (sint frameSize) \<le> length bs"
    and "sint frameSize mod 3 = 0" "sint frameSize \<le> 3 * 8421504"
  shows "CalculateAverageBrightness (Some bs) frameSize
         = Inr (Fin (real (sum_list (pixel_brightness (take (nat (sint frameSize)) bs)))
                     / real_of_int (sint frameSize div 3)))"
proof -
  have "length (take (nat (sint frameSize)) bs) div 3 \<le> 8421504"
    using assms(1,2,4) by simp
  then have "255 * (length (take (nat (sint frameSize)) bs) div 3) \<le> 255 * 8421504"
    by (rule mult_le_mono2)
  with sum_pixel_brightness_le [of "take (nat (sint frameSize)) bs"]
  have "sum_list (pixel_brightness (take (nat (sint frameSize)) bs)) < 2 ^ 31" by simp
  with assms show ?thesis by (intro CalculateAverageBrightness_mean)
qed

lemma CalculateAverageBrightness_empty:
  "CalculateAverageBrightness frameData 0 = Inr (Fin 0)"
  by (simp add: CalculateAverageBrightness_def brightness_loop_exit)

section \<open>Properties: BGR to RGB\<close>

lemma wr_at:
  "sint j = int k \<Longrightarrow> wr v j b = (if k < length v then Some (v[k := b]) else None)"
  by (simp add: wr_def)

lemma bgr_loop_exit:
  "sint n \<le> sint i \<Longrightarrow> bgr_loop fd n i v = Inr v"
  by (subst bgr_loop.simps) (simp add: word_sless_alt)

lemma bgr_loop_skip:
  assumes "sint i < sint n" "sint n \<le> sint i + 2" "sint i + 3 < 2 ^ 31"
  shows "bgr_loop fd n i v = Inr v"
proof -
  have s2: "sint (i + 2) = sint i + 2" and s3: "sint (i + 3) = sint i + 3"
    using assms by (simp_all add: sint_plus2 sint_plus3)
  have "bgr_loop fd n i v = bgr_loop fd n (i + 3) v"
    using assms by (subst bgr_loop.simps) (simp add: word_sless_alt s2)
  also have "\<dots> = Inr v"
    using assms by (intro bgr_loop_exit) (simp add: s3)
  finally show ?thesis .
qed

lemma bgr_loop_body:
  assumes "sint i + 2 < sint n" and "copy_pixel fd i v = Some v'"
  shows "bgr_loop fd n i v = bgr_loop fd n (i + 3) v'"
proof -
  have "sint (i + 2) = sint i + 2" using assms(1) by (intro sint_plus_le(2) [of i n]) simp
  then show ?thesis
    using assms by (subst bgr_loop.simps) (simp add: word_sless_alt)
qed

lemma copy_pixel_at:
  assumes "sint i = int (length pre)" "sint (i + 1) = int (length pre + 1)"
    "sint (i + 2) = int (length pre + 2)" "length out = length pre"
  shows "copy_pixel (Some (pre @ b0 # b1 # b2 # rest)) i (out @ x0 # x1 # x2 # zs)
         = Some (out @ b2 # b1 # b0 # zs)"
  using assms(4)
  by (simp add: copy_pixel_def rd_at [OF assms(1)] rd_at [OF assms(2)] rd_at [OF assms(3)]
      wr_at [OF assms(1)] wr_at [OF assms(2)] wr_at [OF assms(3)] nth_append list_update_append)

lemma bgr_loop_wrap:
  assumes "sint i = 2 ^ 31 - 2" "sint n = 2 ^ 31 - 1"
  shows "bgr_loop fd n i v = Inl AccessViolation"
proof -
  have s2: "sint (i + 2) = - (2 ^ 31)"
    using assms(1) by (simp add: sint_plus2)
  have "rd fd (i + 2) = None" by (simp add: rd_def s2 split: option.splits)
  then have "copy_pixel fd i v = None" by (simp add: copy_pixel_def)
  then show ?thesis
    using assms by (subst bgr_loop.simps) (simp add: word_sless_alt s2)
qed

text \<open>
  The loop from a pixel boundary, on a vector whose remaining part is still zero.
\<close>

lemma bgr_loop_from:
  assumes "sint i = int (length pre)" "sint n = int (length pre + length rest)"
    and "length pre mod 3 = 0" "length out = length pre"
  shows "bgr_loop (Some (pre @ rest @ extra)) n i (out @ replicate (length rest) 0)
         = (if sint n = 2 ^ 31 - 1 then Inl AccessViolation else Inr (out @ swap_pixels rest))"
  using assms
proof (induction rest arbitrary: pre out i rule: swap_pixels.induct)
  case (1 b0 b1 b2 rest)
  let ?bs = "pre @ (b0 # b1 # b2 # rest) @ extra"
  have le: "sint i + 3 \<le> sint n" using "1.prems" by simp
  have s: "sint (i + 1) = int (length pre + 1)" "sint (i + 2) = int (length pre + 2)"
    "sint (i + 3) = int (length pre + 3)"
    using le "1.prems"(1) sint_plus_le [of i n] by simp_all
  have z: "replicate (length (b0 # b1 # b2 # rest)) (0::BYTE) = 0 # 0 # 0 # replicate (length rest) 0"
    by simp
  have c: "copy_pixel (Some (pre @ b0 # b1 # b2 # (rest @ extra))) i
             (out @ 0 # 0 # 0 # replicate (length rest) 0)
           = Some (out @ b2 # b1 # b0 # replicate (length rest) 0)"
    using "1.prems"(1,4) s by (intro copy_pixel_at) simp_all
  have "bgr_loop (Some ?bs) n i (out @ replicate (length (b0 # b1 # b2 # rest)) 0)
        = bgr_loop (Some ?bs) n (i + 3) (out @ b2 # b1 # b0 # replicate (length rest) 0)"
    unfolding z using le c by (intro bgr_loop_body) simp_all
  also have "\<dots> = bgr_loop (Some ((pre @ [b0, b1, b2]) @ rest @ extra)) n (i + 3)
                     ((out @ [b2, b1, b0]) @ replicate (length rest) 0)"
    by simp
  also have "\<dots> = (if sint n = 2 ^ 31 - 1 then Inl AccessViolation
                     else Inr ((out @ [b2, b1, b0]) @ swap_pixels rest))"
    using "1.prems" s(3) by (intro "1.IH") simp_all
  finally show ?case by simp
next
  case (2 pre out i)
  then have "sint n \<noteq> 2 ^ 31 - 1" using long_max_mod3(1) [of "length pre"] by auto
  then show ?case using 2 by (simp add: bgr_loop_exit)
next
  case (3 v pre out i)
  have b: "sint n < 2 ^ 31" using sint_lt [of n] by simp
  show ?case
  proof (cases "sint n = 2 ^ 31 - 1")
    case True
    then show ?thesis using 3 bgr_loop_wrap [of i n] by simp
  next
    case False
    have "sint n \<noteq> 2 ^ 31 - 2"
      using "3.prems"(2,3) long_max_mod3(2) [of "length pre + 1"] by auto
    then have "sint i + 3 < 2 ^ 31" using False b "3.prems"(1,2) by simp
    then show ?thesis using False "3.prems" by (simp add: bgr_loop_skip)
  qed
next
  case (4 v va pre out i)
  have b: "sint n < 2 ^ 31" using sint_lt [of n] by simp
  have "(length pre + 2) mod 3 = 2" using "4.prems"(3) by presburger
  then have "sint n \<noteq> 2 ^ 31 - 1" "sint n \<noteq> 2 ^ 31 - 2"
    using "4.prems"(2) long_max_mod3 [of "length pre + 2"] by auto
  then show ?case using b "4.prems" by (simp add: bgr_loop_skip)
qed

lemma bgr_to_rgb_eq:
  assumes "0 \<le> sint frameSize" "nat (sint frameSize) \<le> length bs"
  shows "bgr_to_rgb (Some bs) frameSize
         = (if sint frameSize = 2 ^ 31 - 1 then Inl AccessViolation
            else Inr (swap_pixels (take (nat (sint frameSize)) bs)))"
proof -
  let ?n = "nat (sint frameSize)"
  have "bgr_loop (Some ([] @ take ?n bs @ drop ?n bs)) frameSize 0
          ([] @ replicate (length (take ?n bs)) 0)
        = (if sint frameSize = 2 ^ 31 - 1 then Inl AccessViolation
           else Inr ([] @ swap_pixels (take ?n bs)))"
    using assms by (intro bgr_loop_from) simp_all
  then show ?thesis using assms by (simp add: bgr_to_rgb_def min_absorb2)
qed

lemma length_swap_pixels: "length (swap_pixels bs) = length bs"
  by (induction bs rule: swap_pixels.induct) simp_all

lemma div3_Suc3: "Suc (Suc (Suc n)) div 3 = Suc (n div 3)"
  and mod3_Suc3: "Suc (Suc (Suc n)) mod 3 = n mod 3"
  by presburger+

lemma take3: "take (3 * Suc m) (b0 # b1 # b2 # rest) = b0 # b1 # b2 # take (3 * m) rest"
proof -
  have "3 * Suc m = Suc (Suc (Suc (3 * m)))" by arith
  then show ?thesis by (simp only: take_Suc_Cons)
qed

lemma swap_pixels_twice:
  "swap_pixels (swap_pixels bs)
   = take (3 * (length bs div 3)) bs @ replicate (length bs mod 3) 0"
proof (induction bs rule: swap_pixels.induct)
  case (1 b0 b1 b2 rest)
  have l: "length (b0 # b1 # b2 # rest) div 3 = Suc (length rest div 3)"
    "length (b0 # b1 # b2 # rest) mod 3 = length rest mod 3"
    by (simp_all add: div3_Suc3 mod3_Suc3)
  show ?case unfolding l take3 using 1 by simp
qed simp_all

lemma swap_pixels_involution:
  assumes "length bs mod 3 = 0"
  shows "swap_pixels (swap_pixels bs) = bs"
proof -
  have "3 * (length bs div 3) = length bs" using assms by presburger
  then show ?thesis using assms by (simp add: swap_pixels_twice)
qed

lemma swap_pixels_nth:
  assumes "3 * p + 2 < length bs"
  shows "swap_pixels bs ! (3 * p) = bs ! (3 * p + 2)
       \<and> swap_pixels bs ! (3 * p + 1) = bs ! (3 * p + 1)
       \<and> swap_pixels bs ! (3 * p + 2) = bs ! (3 * p)"
  using assms
proof (induction bs arbitrary: p rule: swap_pixels.induct)
  case (1 b0 b1 b2 rest)
  show ?case
  proof (cases p)
    case 0
    then show ?thesis by simp
  next
    case (Suc q)
    then have "3 * q + 2 < length rest" using "1.prems" by simp
    from "1.IH" [OF this] show ?thesis using Suc by (simp add: numeral_3_eq_3)
  qed
qed simp_all

lemma swap_pixels_tail:
  assumes "3 * (length bs div 3) \<le> k" "k < length bs"
  shows "swap_pixels bs ! k = 0"
  using assms
proof (induction bs arbitrary: k rule: swap_pixels.induct)
  case (1 b0 b1 b2 rest)
  from "1.prems"(1) have "3 \<le> k" by (simp add: div3_Suc3)
  then obtain j where k: "k = Suc (Suc (Suc j))"
    using that [of "k - 3"] by (simp add: numeral_3_eq_3)
  then have "3 * (length rest div 3) \<le> j" "j < length rest"
    using "1.prems" by (simp_all add: div3_Suc3)
  from "1.IH" [OF this] show ?case using k by simp
next
  case (2 k)
  then show ?case by simp
next
  case (3 v k)
  then show ?case by simp
next
  case (4 v va k)
  then show ?case by (cases k) simp_all
qed

text \<open>The vector keeps its length, whatever the frame.\<close>

lemma copy_pixel_length: "copy_pixel fd i v = Some v' \<Longrightarrow> length v' = length v"
  by (auto simp: copy_pixel_def wr_def split: option.splits if_splits)

lemma bgr_loop_length: "bgr_loop fd n i v = Inr v' \<Longrightarrow> length v' = length v"
proof (induction fd n i v rule: bgr_loop.induct)
  case (1 frameData frameSize i rgbData)
  show ?case
  proof (cases "i <s frameSize")
    case False
    then show ?thesis using "1.prems" by (subst (asm) bgr_loop.simps) simp
  next
    case True
    note lt = this
    show ?thesis
    proof (cases "i + 2 <s frameSize")
      case False
      then have "bgr_loop frameData frameSize (i + 3) rgbData = Inr v'"
        using "1.prems" lt by (subst (asm) bgr_loop.simps) simp
      then show ?thesis using "1.IH"(2) lt False by simp
    next
      case True
      then obtain w where w: "copy_pixel frameData i rgbData = Some w"
        and r: "bgr_loop frameData frameSize (i + 3) w = Inr v'"
        using "1.prems" lt by (subst (asm) bgr_loop.simps) (simp split: option.splits)
      from "1.IH"(1) [OF lt True w r] copy_pixel_length [OF w] show ?thesis by simp
    qed
  qed
qed

lemma bgr_to_rgb_length:
  "bgr_to_rgb fd frameSize = Inr v \<Longrightarrow> length v = nat (sint frameSize)"
  by (auto simp: bgr_to_rgb_def dest: bgr_loop_length split: if_splits)

section \<open>Properties: the saved file\<close>

lemma estimate_dimensions_set:
  "m_imageWidth this \<noteq> 0 \<Longrightarrow> m_imageHeight this \<noteq> 0
   \<Longrightarrow> estimate_dimensions sqrt_est this frameSize = Inr this"
  by (simp add: estimate_dimensions_def)

lemma estimate_dimensions_flag:
  "estimate_dimensions sqrt_est this frameSize = Inr this'
   \<Longrightarrow> m_frameSaved this' = m_frameSaved this"
  by (auto simp: estimate_dimensions_def Let_def split: if_splits)

lemma SaveFrameAsBMP_Inr:
  assumes "SaveFrameAsBMP sqrt_est create_ok this frameData frameSize = Inr (this', file)"
  shows "estimate_dimensions sqrt_est this frameSize = Inr this'
    \<and> (if create_ok
        then \<exists>rgbData. bgr_to_rgb frameData frameSize = Inr rgbData
             \<and> file = Some \<lparr>fileName = ''captured_frame.bmp'',
                    chunks = [FileHeader (make_file_header frameSize),
                              InfoHeader (make_info_header this' frameSize),
                              Bytes (take (nat (sint frameSize)) rgbData)]\<rparr>
        else file = None)"
  using assms
  by (auto simp: SaveFrameAsBMP_def Let_def split: sum.splits if_splits)

lemma ProcessFrame_Inr:
  assumes "ProcessFrame sqrt_est create_ok this frameData frameSize = Inr (this', file)"
  shows "if \<not> m_frameSaved this \<and> frameData \<noteq> None \<and> 0 <s frameSize
         then \<exists>this1. SaveFrameAsBMP sqrt_est create_ok this frameData frameSize = Inr (this1, file)
                \<and> this' = this1\<lparr>m_frameSaved := True\<rparr>
         else this' = this \<and> file = None"
  using assms
  by (auto simp: ProcessFrame_def split: sum.splits if_splits prod.splits)

lemma unat_of_nonneg_sint:
  fixes w :: "32 word"
  assumes "0 \<le> sint w"
  shows "unat w = nat (sint w)"
proof -
  have e: "sint w = signed_take_bit 31 (uint w)" using sint_uint [of w] by simp
  have r: "0 \<le> uint w" "uint w < 2 ^ 32" using uint_lt2p [of w] by simp_all
  have "sint w = uint w"
  proof (cases "uint w < 2 ^ 31")
    case True
    then show ?thesis using e r by (simp add: signed_take_bit_int_eq_self)
  next
    case False
    then have "sint w = uint w - 2 ^ 32" using e r signed_take_bit_wrap [of "uint w"] by simp
    then show ?thesis using assms r by simp
  qed
  then show ?thesis by simp
qed

lemma unat_header_plus:
  fixes frameSize :: "32 word"
  assumes "0 \<le> sint frameSize"
  shows "unat (54 + frameSize) = 54 + nat (sint frameSize)"
proof -
  have u: "unat frameSize = nat (sint frameSize)" using assms by (rule unat_of_nonneg_sint)
  have "sint frameSize < 2 ^ 31" using sint_lt [of frameSize] by simp
  then have "unat (54 :: 32 word) + unat frameSize < 2 ^ LENGTH(32)" using u assms by simp
  then have "unat (54 + frameSize) = unat (54 :: 32 word) + unat frameSize"
    by (simp only: unat_add_lem)
  then show ?thesis using u by simp
qed

lemma sint_uminus:
  fixes h :: "32 word"
  assumes "sint h \<noteq> - (2 ^ 31)"
  shows "sint (- h) = - sint h"
proof -
  have "- (2 ^ 31) \<le> sint h" "sint h < 2 ^ 31" using sint_ge [of h] sint_lt [of h] by simp_all
  then have "- (2 ^ 31) \<le> - sint h" "- sint h < 2 ^ 31" using assms by simp_all
  then show ?thesis by (simp add: sint_word_ariths signed_take_bit_int_eq_self)
qed

text \<open>
  Claim C2. Whenever a frame is saved, the file \<open>captured_frame.bmp\<close> holds a
  BITMAPFILEHEADER with \<open>bfType\<close> 0x4D42, \<open>bfOffBits\<close> the size of the two headers and
  \<open>bfSize\<close> that plus the frame size, then a BITMAPINFOHEADER with 24 bits per pixel,
  \<open>BI_RGB\<close>, one plane, the image width, the negated image height and the frame size
  as image size, then exactly \<open>frameSize\<close> bytes of pixel data. The image width and
  height are those of the object after the call: the ones set before, or the estimate.
\<close>

theorem saved_file_layout:
  assumes "ProcessFrame sqrt_est create_ok this frameData frameSize = Inr (this', Some file)"
  shows "\<exists>bfh bih pixels.
           fileName file = ''captured_frame.bmp''
         \<and> chunks file = [FileHeader bfh, InfoHeader bih, Bytes pixels]
         \<and> bfType bfh = 0x4D42
         \<and> bfOffBits bfh = sizeof_BITMAPFILEHEADER + sizeof_BITMAPINFOHEADER
         \<and> bfSize bfh = bfOffBits bfh + frameSize
         \<and> unat (bfSize bfh) = unat (bfOffBits bfh) + nat (sint frameSize)
         \<and> biBitCount bih = 24 \<and> biCompression bih = BI_RGB \<and> biPlanes bih = 1
         \<and> biWidth bih = m_imageWidth this'
         \<and> biHeight bih = - m_imageHeight this'
         \<and> (sint (m_imageHeight this') \<noteq> - (2 ^ 31)
              \<longrightarrow> sint (biHeight bih) = - sint (m_imageHeight this'))
         \<and> biSizeImage bih = frameSize
         \<and> length pixels = nat (sint frameSize)
         \<and> (m_imageWidth this \<noteq> 0 \<and> m_imageHeight this \<noteq> 0
              \<longrightarrow> m_imageWidth this' = m_imageWidth this
                \<and> m_imageHeight this' = m_imageHeight this)"
proof -
  from ProcessFrame_Inr [OF assms]
  obtain this1 where pos: "0 <s frameSize"
    and save: "SaveFrameAsBMP sqrt_est create_ok this frameData frameSize = Inr (this1, Some file)"
    and this': "this' = this1\<lparr>m_frameSaved := True\<rparr>"
    by (auto split: if_splits)
  from SaveFrameAsBMP_Inr [OF save]
  obtain rgbData where est: "estimate_dimensions sqrt_est this frameSize = Inr this1"
    and rgb: "bgr_to_rgb frameData frameSize = Inr rgbData"
    and f_eq: "file = \<lparr>fileName = ''captured_frame.bmp'',
                 chunks = [FileHeader (make_file_header frameSize),
                           InfoHeader (make_info_header this1 frameSize),
                           Bytes (take (nat (sint frameSize)) rgbData)]\<rparr>"
    by (auto split: if_splits)
  have nn: "0 \<le> sint frameSize" using pos by (simp add: word_sless_alt)
  have sz: "unat (bfSize (make_file_header frameSize))
            = unat (bfOffBits (make_file_header frameSize)) + nat (sint frameSize)"
    using unat_header_plus [OF nn]
    by (simp add: make_file_header_def sizeof_BITMAPFILEHEADER_def sizeof_BITMAPINFOHEADER_def)
  have len: "length (take (nat (sint frameSize)) rgbData) = nat (sint frameSize)"
    using bgr_to_rgb_length [OF rgb] by simp
  have dims: "m_imageWidth this \<noteq> 0 \<and> m_imageHeight this \<noteq> 0 \<longrightarrow> this1 = this"
    using est by (auto simp: estimate_dimensions_def)
  have hs: "sint (m_imageHeight this1) \<noteq> - (2 ^ 31)
            \<longrightarrow> sint (- m_imageHeight this1) = - sint (m_imageHeight this1)"
    using sint_uminus [of "m_imageHeight this1"] by simp
  show ?thesis
    apply (rule exI [of _ "make_file_header frameSize"])
    apply (rule exI [of _ "make_info_header this1 frameSize"])
    apply (rule exI [of _ "take (nat (sint frameSize)) rgbData"])
    using sz len dims hs
    by (simp add: f_eq this' make_file_header_def make_info_header_def)
qed

lemma swap_first_third_involution: "swap_first_third (swap_first_third bs) = bs"
  by (induction bs rule: swap_first_third.induct) simp_all

lemma swap_pixels_first_third:
  "swap_pixels bs
   = take (3 * (length bs div 3)) (swap_first_third bs) @ replicate (length bs mod 3) 0"
proof (induction bs rule: swap_pixels.induct)
  case (1 b0 b1 b2 rest)
  have l: "length (b0 # b1 # b2 # rest) div 3 = Suc (length rest div 3)"
    "length (b0 # b1 # b2 # rest) mod 3 = length rest mod 3"
    by (simp_all add: div3_Suc3 mod3_Suc3)
  have "swap_first_third (b0 # b1 # b2 # rest) = b2 # b1 # b0 # swap_first_third rest" by simp
  then show ?case unfolding l using 1 by (simp only: take3 swap_pixels.simps append_Cons)
qed simp_all

text \<open>
  Claim C3. The pixel data written to the file is the frame with the first and third
  byte of every complete 3-byte pixel exchanged and the middle byte kept, and with the
  1 or 2 bytes after the last complete pixel written as zero. The per-pixel exchange is
  an involution: applied twice it gives back the buffer. For the code this means that
  converting the written data once more gives back every complete pixel of the frame,
  hence the whole frame when its size is a multiple of 3.
\<close>

theorem written_pixels_swapped:
  assumes "ProcessFrame sqrt_est create_ok this (Some bs) frameSize = Inr (this', Some file)"
    and "nat (sint frameSize) \<le> length bs"
    and "frame = take (nat (sint frameSize)) bs"
  shows "\<exists>bfh bih pixels.
           chunks file = [FileHeader bfh, InfoHeader bih, Bytes pixels]
         \<and> pixels = take (3 * (length frame div 3)) (swap_first_third frame)
                      @ replicate (length frame mod 3) 0
         \<and> swap_first_third (swap_first_third frame) = frame
         \<and> length pixels = length frame
         \<and> (\<forall>p. 3 * p + 2 < length frame \<longrightarrow>
                pixels ! (3 * p) = frame ! (3 * p + 2)
              \<and> pixels ! (3 * p + 1) = frame ! (3 * p + 1)
              \<and> pixels ! (3 * p + 2) = frame ! (3 * p))
         \<and> (\<forall>k. 3 * (length frame div 3) \<le> k \<and> k < length frame \<longrightarrow> pixels ! k = 0)
         \<and> bgr_to_rgb (Some pixels) frameSize
             = Inr (take (3 * (length frame div 3)) frame @ replicate (length frame mod 3) 0)
         \<and> (length frame mod 3 = 0 \<longrightarrow> bgr_to_rgb (Some pixels) frameSize = Inr frame)"
proof -
  from ProcessFrame_Inr [OF assms(1)]
  obtain this1 where pos: "0 <s frameSize"
    and save: "SaveFrameAsBMP sqrt_est create_ok this (Some bs) frameSize = Inr (this1, Some file)"
    by (auto split: if_splits)
  from SaveFrameAsBMP_Inr [OF save]
  obtain rgbData where rgb: "bgr_to_rgb (Some bs) frameSize = Inr rgbData"
    and f_eq: "file = \<lparr>fileName = ''captured_frame.bmp'',
                 chunks = [FileHeader (make_file_header frameSize),
                           InfoHeader (make_info_header this1 frameSize),
                           Bytes (take (nat (sint frameSize)) rgbData)]\<rparr>"
    by (auto split: if_splits)
  have nn: "0 \<le> sint frameSize" using pos by (simp add: word_sless_alt)
  have lf: "length frame = nat (sint frameSize)" using assms(2,3) by simp
  from rgb bgr_to_rgb_eq [OF nn assms(2)]
  have ne: "sint frameSize \<noteq> 2 ^ 31 - 1" and sw: "rgbData = swap_pixels frame"
    using assms(3) by (auto split: if_splits)
  have tk: "take (nat (sint frameSize)) rgbData = swap_pixels frame"
    using sw lf by (simp add: length_swap_pixels)
  have again: "bgr_to_rgb (Some (swap_pixels frame)) frameSize
               = Inr (swap_pixels (swap_pixels frame))"
    using bgr_to_rgb_eq [of frameSize "swap_pixels frame"] nn ne lf
    by (simp add: length_swap_pixels)
  let ?pixels = "take (3 * (length frame div 3)) (swap_first_third frame)
                 @ replicate (length frame mod 3) 0"
  have px: "?pixels = swap_pixels frame" by (simp only: swap_pixels_first_third)
  show ?thesis
  proof (intro exI conjI allI impI)
    show "chunks file = [FileHeader (make_file_header frameSize),
                         InfoHeader (make_info_header this1 frameSize),
                         Bytes ?pixels]"
      unfolding px by (simp add: f_eq tk)
    show "?pixels = ?pixels" ..
    show "swap_first_third (swap_first_third frame) = frame"
      by (rule swap_first_third_involution)
    show "length ?pixels = length frame" unfolding px by (rule length_swap_pixels)
    show "bgr_to_rgb (Some ?pixels) frameSize
          = Inr (take (3 * (length frame div 3)) frame @ replicate (length frame mod 3) 0)"
      unfolding px by (simp add: again swap_pixels_twice)
  next
    fix p
    assume "3 * p + 2 < length frame"
    from swap_pixels_nth [OF this]
    show "?pixels ! (3 * p) = frame ! (3 * p + 2)"
      and "?pixels ! (3 * p + 1) = frame ! (3 * p + 1)"
      and "?pixels ! (3 * p + 2) = frame ! (3 * p)"
      unfolding px by blast+
  next
    fix k
    assume "3 * (length frame div 3) \<le> k \<and> k < length frame"
    then show "?pixels ! k = 0" unfolding px by (simp add: swap_pixels_tail)
  next
    assume "length frame mod 3 = 0"
    then show "bgr_to_rgb (Some ?pixels) frameSize = Inr frame"
      unfolding px by (simp add: again swap_pixels_involution)
  qed
qed

section \<open>Properties: at most one save\<close>










section \<open>Properties: a worked frame\<close>

text \<open>
  A frame of 8 bytes, two pixels and two bytes more, is the first frame of a new
  object; the width estimated for its 2 pixels is 1.
\<close>

lemma example_brightness:
  "CalculateAverageBrightness (Some example_frame) 8 = Inr (Fin 35)"
  using CalculateAverageBrightness_wrapped [of 8 example_frame]
  by (simp add: example_frame_def ddiv_nonzero)

lemma example_bgr_to_rgb:
  "bgr_to_rgb (Some example_frame) 8 = Inr [30, 20, 10, 60, 50, 40, 0, 0]"
  using bgr_to_rgb_eq [of 8 example_frame] by (simp add: example_frame_def)

lemma example_ProcessFrame:
  "ProcessFrame (\<lambda>n. 1) True (new_CFrameSavingCallback 1000) (Some example_frame) 8
   = Inr (example_saved, Some example_file)"
  by (simp add: ProcessFrame_def CSampleGrabberCB_ProcessFrame_def AnalyzeFrame_def
      example_brightness SaveFrameAsBMP_def estimate_dimensions_def example_bgr_to_rgb
      new_CFrameSavingCallback_def make_file_header_def make_info_header_def
      sizeof_BITMAPFILEHEADER_def sizeof_BITMAPINFOHEADER_def BI_RGB_def
      signed_divide_int_def Let_def word_sless_alt example_saved_def example_file_def)

theorem saved_file_layout_witness:
  "ProcessFrame (\<lambda>n. 1) True (new_CFrameSavingCallback 1000) (Some example_frame) 8
     = Inr (example_saved, Some example_file)
   \<and> (\<exists>bfh bih pixels.
         chunks example_file = [FileHeader bfh, InfoHeader bih, Bytes pixels]
       \<and> bfType bfh = 0x4D42 \<and> bfOffBits bfh = 54 \<and> unat (bfSize bfh) = 62
       \<and> biWidth bih = 1 \<and> sint (biHeight bih) = - 2 \<and> biSizeImage bih = 8
       \<and> length pixels = 8)"
proof -
  note e = example_ProcessFrame
  have h: "sint (m_imageHeight example_saved) \<noteq> - (2 ^ 31)"
    "m_imageHeight example_saved = 2" "m_imageWidth example_saved = 1"
    by (simp_all add: example_saved_def)
  from saved_file_layout [OF e] obtain bfh bih pixels where
    "chunks example_file = [FileHeader bfh, InfoHeader bih, Bytes pixels]"
    "bfType bfh = 0x4D42"
    "bfOffBits bfh = sizeof_BITMAPFILEHEADER + sizeof_BITMAPINFOHEADER"
    "unat (bfSize bfh) = unat (bfOffBits bfh) + nat (sint (8 :: LONG))"
    "biWidth bih = m_imageWidth example_saved"
    "sint (m_imageHeight example_saved) \<noteq> - (2 ^ 31)
       \<longrightarrow> sint (biHeight bih) = - sint (m_imageHeight example_saved)"
    "biSizeImage bih = 8" "length pixels = nat (sint (8 :: LONG))"
    by (elim exE conjE)
  then have "chunks example_file = [FileHeader bfh, InfoHeader bih, Bytes pixels]
       \<and> bfType bfh = 0x4D42 \<and> bfOffBits bfh = 54 \<and> unat (bfSize bfh) = 62
       \<and> biWidth bih = 1 \<and> sint (biHeight bih) = - 2 \<and> biSizeImage bih = 8
       \<and> length pixels = 8"
    using h by (simp add: sizeof_BITMAPFILEHEADER_def sizeof_BITMAPINFOHEADER_def)
  then show ?thesis using e by blast
qed

theorem written_pixels_swapped_witness:
  "ProcessFrame (\<lambda>n. 1) True (new_CFrameSavingCallback 1000) (Some example_frame) 8
     = Inr (example_saved, Some example_file)
   \<and> nat (sint (8 :: LONG)) \<le> length example_frame
   \<and> (\<exists>bfh bih. chunks example_file
         = [FileHeader bfh, InfoHeader bih, Bytes [30, 20, 10, 60, 50, 40, 0, 0]])
   \<and> swap_first_third example_frame = [30, 20, 10, 60, 50, 40, 70, 80]
   \<and> bgr_to_rgb (Some [30, 20, 10, 60, 50, 40, 0, 0]) 8 = Inr [10, 20, 30, 40, 50, 60, 0, 0]"
proof -
  note e = example_ProcessFrame
  have l: "nat (sint (8 :: LONG)) \<le> length example_frame" by (simp add: example_frame_def)
  have t: "example_frame = take (nat (sint (8 :: LONG))) example_frame"
    by (simp add: example_frame_def)
  from written_pixels_swapped [OF e l t] obtain bfh bih pixels where
    c: "chunks example_file = [FileHeader bfh, InfoHeader bih, Bytes pixels]"
    and p: "pixels = take (3 * (length example_frame div 3)) (swap_first_third example_frame)
                      @ replicate (length example_frame mod 3) 0"
    and i: "bgr_to_rgb (Some pixels) 8
             = Inr (take (3 * (length example_frame div 3)) example_frame
                    @ replicate (length example_frame mod 3) 0)"
    by (elim exE conjE)
  have s: "swap_first_third example_frame = [30, 20, 10, 60, 50, 40, 70, 80]"
    by (simp add: example_frame_def)
  have px: "pixels = [30, 20, 10, 60, 50, 40, 0, 0]"
    unfolding p s by (simp add: example_frame_def numeral_2_eq_2)
  have "bgr_to_rgb (Some [30, 20, 10, 60, 50, 40, 0, 0]) 8 = Inr [10, 20, 30, 40, 50, 60, 0, 0]"
    using i unfolding px by (simp add: example_frame_def numeral_2_eq_2)
  then show ?thesis using e l c s px by blast
qed


section \<open>Properties: brightness at the edges\<close>

lemma pixel_brightness_replicate:
  "pixel_brightness (replicate (3 * k) b) = replicate k (unat b)"
proof (induction k)
  case (Suc k)
  have "replicate (3 * Suc k) b = b # b # b # replicate (3 * k) b"
    by (simp add: numeral_3_eq_3)
  then show ?case using Suc by simp
qed simp

text \<open>
  Claim C1. On a frame whose size is a positive multiple of 3 the function is meant to
  return the mean of the pixel brightnesses. A white frame of 4096 x 2160 pixels
  (26542080 bytes of 0xFF) has the brightness sum 8847360 * 255 = 2256076800, which
  does not fit the 32-bit \<^verbatim>\<open>totalBrightness\<close>: the sum wraps to -2038890496 and the
  result is about -230.45, where the mean is 255.
\<close>

theorem CalculateAverageBrightness_overflow:
  "CalculateAverageBrightness (Some (replicate 26542080 0xFF)) 26542080
     = Inr (Fin (- 2038890496 / 8847360))
   \<and> real (sum_list (pixel_brightness (replicate 26542080 0xFF))) / real (26542080 div 3) = 255"
proof -
  have p: "pixel_brightness (replicate 26542080 (0xFF :: BYTE)) = replicate 8847360 255"
    using pixel_brightness_replicate [of 8847360 "0xFF"] by simp
  show ?thesis
    using CalculateAverageBrightness_wrapped [of 26542080 "replicate 26542080 0xFF"]
    by (simp add: p sum_list_replicate ddiv_nonzero)
qed

text \<open>
  Claim C10. The result is meant to be a finite value between 0 and 255 for every frame.
  For a frame of 1 byte (or 2) no pixel is complete, \<^verbatim>\<open>frameSize / 3\<close> is 0 and the
  guard \<^verbatim>\<open>frameSize > 0\<close> lets the division \<^verbatim>\<open>0.0 / 0\<close> through: the result is NaN.
\<close>

theorem CalculateAverageBrightness_one_byte_NaN:
  "CalculateAverageBrightness (Some [7]) 1 = Inr NaN
   \<and> CalculateAverageBrightness (Some [7, 9]) 2 = Inr NaN"
  using CalculateAverageBrightness_wrapped [of 1 "[7]"]
    CalculateAverageBrightness_wrapped [of 2 "[7, 9]"]
  by (simp add: ddiv_def)

section \<open>Properties: error descriptions\<close>

lemma hex_digits_all: "list_all (\<lambda>d. hex_digit_val (hex_digit d) = d) [0..<16]"
  by (simp add: upt_rec hex_digit_def hex_digit_val_def)

lemma hex_digit_val_digit: "d < 16 \<Longrightarrow> hex_digit_val (hex_digit d) = d"
  using hex_digits_all by (simp add: list_all_iff)

lemma hex_to_nat_snoc: "hex_to_nat (s @ [c]) = 16 * hex_to_nat s + hex_digit_val c"
  by (simp add: hex_to_nat_def)

text \<open>The digits printed denote the value printed.\<close>

lemma hex_to_nat_hex_of_nat: "hex_to_nat (hex_of_nat n) = n"
proof (induction n rule: hex_of_nat.induct)
  case (1 n)
  show ?case
  proof (cases "n < 16")
    case True
    then show ?thesis
      using hex_to_nat_snoc [of "[]" "hex_digit n"]
      by (simp add: hex_of_nat.simps [of n] hex_digit_val_digit hex_to_nat_def)
  next
    case False
    then show ?thesis using 1
      by (simp add: hex_of_nat.simps [of n] hex_to_nat_snoc hex_digit_val_digit)
  qed
qed

lemma described_codes_distinct:
  "distinct [VFW_E_NOT_FOUND, E_NOINTERFACE, E_INVALIDARG, VFW_E_CANNOT_CONNECT]"
  by (simp add: VFW_E_NOT_FOUND_def E_NOINTERFACE_def E_INVALIDARG_def VFW_E_CANNOT_CONNECT_def)

text \<open>
  Claim C5. For every \<^verbatim>\<open>HRESULT\<close> the description is \<open>HRESULT: 0x\<close>, the code in
  hexadecimal, and exactly one text chosen by the code: one of four texts for the four
  codes the function knows, and \<open>(Unknown error)\<close> for every other code.
\<close>

theorem GetErrorDescription_by_code:
  "hex_to_nat (hex_of_long hr) = unat hr
   \<and> (hr = VFW_E_NOT_FOUND \<longrightarrow> GetErrorDescription hr
         = ''HRESULT: 0x'' @ hex_of_long hr @ '' (No capture devices found)'')
   \<and> (hr = E_NOINTERFACE \<longrightarrow> GetErrorDescription hr
         = ''HRESULT: 0x'' @ hex_of_long hr @ '' (Interface not supported)'')
   \<and> (hr = E_INVALIDARG \<longrightarrow> GetErrorDescription hr
         = ''HRESULT: 0x'' @ hex_of_long hr @ '' (Invalid argument)'')
   \<and> (hr = VFW_E_CANNOT_CONNECT \<longrightarrow> GetErrorDescription hr
         = ''HRESULT: 0x'' @ hex_of_long hr @ '' (Cannot connect filters)'')
   \<and> (hr \<notin> {VFW_E_NOT_FOUND, E_NOINTERFACE, E_INVALIDARG, VFW_E_CANNOT_CONNECT}
        \<longrightarrow> GetErrorDescription hr = ''HRESULT: 0x'' @ hex_of_long hr @ '' (Unknown error)'')"
  using described_codes_distinct
  by (auto simp: GetErrorDescription_def hex_of_long_def hex_to_nat_hex_of_nat)

theorem GetErrorDescription_by_code_witness:
  "GetErrorDescription E_INVALIDARG = ''HRESULT: 0x80070057 (Invalid argument)''
   \<and> GetErrorDescription VFW_E_NOT_FOUND = ''HRESULT: 0x80040216 (No capture devices found)''
   \<and> GetErrorDescription S_OK = ''HRESULT: 0x0 (Unknown error)''
   \<and> hex_to_nat ''80070057'' = unat E_INVALIDARG"
proof -
  have h: "hex_of_long E_INVALIDARG = ''80070057''" "hex_of_long VFW_E_NOT_FOUND = ''80040216''"
    "hex_of_long S_OK = ''0''"
    by (simp_all add: hex_of_long_def hex_of_nat.simps hex_digit_def E_INVALIDARG_def
        VFW_E_NOT_FOUND_def S_OK_def)
  have n: "S_OK \<notin> {VFW_E_NOT_FOUND, E_NOINTERFACE, E_INVALIDARG, VFW_E_CANNOT_CONNECT}"
    by (simp add: S_OK_def VFW_E_NOT_FOUND_def E_NOINTERFACE_def E_INVALIDARG_def
        VFW_E_CANNOT_CONNECT_def)
  show ?thesis
    using GetErrorDescription_by_code [of E_INVALIDARG]
      GetErrorDescription_by_code [of VFW_E_NOT_FOUND]
      GetErrorDescription_by_code [of S_OK] n
    by (simp add: h)
qed

section \<open>Properties: enumeration\<close>

lemma enumerate_loop_cameras:
  "snd (enumerate_loop fw n idx this cams)
   = cams @ map (camera_info fw) (filter (readable fw) [idx..idx + int n - 1])"
proof (induction n arbitrary: idx this cams)
  case 0
  then show ?case by simp
next
  case (Suc n)
  have u: "[idx..idx + int (Suc n) - 1] = idx # [idx + 1..idx + 1 + int n - 1]"
    by (simp add: upto_rec1 [of idx] add.commute add.left_commute)
  show ?case
    unfolding u by (simp add: Suc Let_def readable_def camera_info_def)
qed

lemma Enumeratecameras_Inr:
  assumes "Enumeratecameras fw this cameras = Inr (hr, this', cameras')"
  shows "if FAILED (response fw (CoCreateInstance CLSID_SystemDeviceEnum))
         then hr = response fw (CoCreateInstance CLSID_SystemDeviceEnum) \<and> cameras' = []
         else if response fw (CreateClassEnumerator CLSID_VideoInputDeviceCategory) = S_FALSE
         then hr = VFW_E_NOT_FOUND \<and> cameras' = []
         else class_enumerator fw
            \<and> cameras' = map (camera_info fw)
                            (filter (readable fw) [0..int (device_count fw) - 1])
            \<and> hr = (if cameras' = [] then VFW_E_NOT_FOUND else S_OK)"
  using assms enumerate_loop_cameras [of fw "device_count fw" 0
      "call (CreateClassEnumerator CLSID_VideoInputDeviceCategory)
         (call (CoCreateInstance CLSID_SystemDeviceEnum) this)" "[]"]
  by (auto simp: Enumeratecameras_def Let_def split: if_splits prod.splits)

lemma Enumeratecameras_cleared:
  "Enumeratecameras fw this cameras = Enumeratecameras fw this []"
  by (simp add: Enumeratecameras_def)

lemma not_found_not_ok: "VFW_E_NOT_FOUND \<noteq> S_OK" "FAILED VFW_E_NOT_FOUND" "\<not> FAILED S_OK"
  by (simp_all add: VFW_E_NOT_FOUND_def S_OK_def FAILED_def)

lemma sorted_index_readable:
  "sorted_wrt (<) (map index (map (camera_info fw) (filter (readable fw) [i..j])))"
proof -
  have "map index (map (camera_info fw) (filter (readable fw) [i..j])) = filter (readable fw) [i..j]"
    by (simp add: camera_info_def comp_def)
  then show ?thesis by (simp add: sorted_wrt_filter)
qed


text \<open>
  Claim C9, as stated, has the function return \<open>VFW_E_NOT_FOUND\<close> exactly when the
  vector ends up empty. When COM has not been initialised, creating the system device
  enumerator fails with \<open>CO_E_NOTINITIALIZED\<close> (0x800401F0); the function returns
  that code, and the vector is empty.
\<close>

theorem Enumeratecameras_not_found_counterexample:
  "Enumeratecameras uninitialised_COM new_DirectShowCamera []
   = Inr (0x800401F0,
          new_DirectShowCamera\<lparr>calls := [CoCreateInstance CLSID_SystemDeviceEnum]\<rparr>, [])
   \<and> (0x800401F0 :: HRESULT) \<noteq> VFW_E_NOT_FOUND"
  by (simp add: Enumeratecameras_def uninitialised_COM_def new_DirectShowCamera_def call_def
      FAILED_def VFW_E_NOT_FOUND_def)

text \<open>
  Claim C9, amended. The vector is cleared first: what it held before plays no role.
  When the system device enumerator cannot be created, the function returns that
  failure code unchanged and the vector is empty. Otherwise, when the function returns,
  it returns \<open>VFW_E_NOT_FOUND\<close> exactly when the vector is empty. On \<open>S_OK\<close> the
  vector is not empty and holds the readable devices in enumeration order; the index
  stored with each camera is the position of its device in the enumeration, so the
  stored indices are strictly increasing.
\<close>

theorem Enumeratecameras_result:
  assumes "Enumeratecameras fw this cameras = Inr (hr, this', cameras')"
  shows "Enumeratecameras fw this [] = Inr (hr, this', cameras')
       \<and> (FAILED (response fw (CoCreateInstance CLSID_SystemDeviceEnum))
            \<longrightarrow> hr = response fw (CoCreateInstance CLSID_SystemDeviceEnum) \<and> cameras' = [])
       \<and> (\<not> FAILED (response fw (CoCreateInstance CLSID_SystemDeviceEnum))
            \<longrightarrow> (hr = VFW_E_NOT_FOUND \<longleftrightarrow> cameras' = []))
       \<and> (hr = S_OK \<longrightarrow> cameras' \<noteq> []
            \<and> cameras' = map (camera_info fw)
                            (filter (readable fw) [0..int (device_count fw) - 1]))
       \<and> (\<forall>c\<in>set cameras'. 0 \<le> index c \<and> index c < int (device_count fw)
            \<and> readable fw (index c) \<and> c = camera_info fw (index c))
       \<and> sorted_wrt (<) (map index cameras')"
proof -
  note r = Enumeratecameras_Inr [OF assms]
  let ?all = "map (camera_info fw) (filter (readable fw) [0..int (device_count fw) - 1])"
  have cases: "cameras' = [] \<and> hr \<noteq> S_OK
      \<or> cameras' = ?all \<and> hr = (if cameras' = [] then VFW_E_NOT_FOUND else S_OK)"
    using r not_found_not_ok by (auto simp: split: if_splits)
  have members: "\<forall>c\<in>set ?all. 0 \<le> index c \<and> index c < int (device_count fw)
            \<and> readable fw (index c) \<and> c = camera_info fw (index c)"
    by (auto simp: camera_info_def)
  show ?thesis
  proof (intro conjI)
    show "Enumeratecameras fw this [] = Inr (hr, this', cameras')"
      using assms Enumeratecameras_cleared [of fw this cameras] by simp
    show "FAILED (response fw (CoCreateInstance CLSID_SystemDeviceEnum))
            \<longrightarrow> hr = response fw (CoCreateInstance CLSID_SystemDeviceEnum) \<and> cameras' = []"
      using r by simp
    show "\<not> FAILED (response fw (CoCreateInstance CLSID_SystemDeviceEnum))
            \<longrightarrow> (hr = VFW_E_NOT_FOUND \<longleftrightarrow> cameras' = [])"
      using r not_found_not_ok by (auto split: if_splits)
    show "hr = S_OK \<longrightarrow> cameras' \<noteq> [] \<and> cameras' = ?all"
      using cases not_found_not_ok by (auto split: if_splits)
    show "\<forall>c\<in>set cameras'. 0 \<le> index c \<and> index c < int (device_count fw)
            \<and> readable fw (index c) \<and> c = camera_info fw (index c)"
      using cases members by auto
    show "sorted_wrt (<) (map index cameras')"
      using cases sorted_index_readable [of fw 0 "int (device_count fw) - 1"] by auto
  qed
qed

lemma example_Enumeratecameras:
  "Enumeratecameras three_devices new_DirectShowCamera
     [\<lparr>friendlyName = ''stale'', devicePath = [], moniker = 7, index = 7\<rparr>]
   = Inr (S_OK,
          new_DirectShowCamera\<lparr>calls :=
            [CoCreateInstance CLSID_SystemDeviceEnum,
             CreateClassEnumerator CLSID_VideoInputDeviceCategory,
             EnumNext, BindToStorage 0 IID_IPropertyBag, PropertyBagRead 0 ''FriendlyName'',
             EnumNext, BindToStorage 1 IID_IPropertyBag, PropertyBagRead 1 ''FriendlyName'',
             EnumNext, BindToStorage 2 IID_IPropertyBag, PropertyBagRead 2 ''FriendlyName'',
             EnumNext]\<rparr>,
          [\<lparr>friendlyName = ''Integrated Camera'', devicePath = [], moniker = 0, index = 0\<rparr>,
           \<lparr>friendlyName = ''USB Camera'', devicePath = [], moniker = 2, index = 2\<rparr>])"
  by (simp add: Enumeratecameras_def three_devices_def new_DirectShowCamera_def call_def
      FAILED_def SUCCEEDED_def S_OK_def S_FALSE_def E_FAIL_def Let_def numeral_3_eq_3)

theorem Enumeratecameras_result_witness:
  "\<exists>this'. Enumeratecameras three_devices new_DirectShowCamera
       [\<lparr>friendlyName = ''stale'', devicePath = [], moniker = 7, index = 7\<rparr>]
     = Inr (S_OK, this',
          [\<lparr>friendlyName = ''Integrated Camera'', devicePath = [], moniker = 0, index = 0\<rparr>,
           \<lparr>friendlyName = ''USB Camera'', devicePath = [], moniker = 2, index = 2\<rparr>])
   \<and> Enumeratecameras three_devices new_DirectShowCamera []
     = Inr (S_OK, this',
          [\<lparr>friendlyName = ''Integrated Camera'', devicePath = [], moniker = 0, index = 0\<rparr>,
           \<lparr>friendlyName = ''USB Camera'', devicePath = [], moniker = 2, index = 2\<rparr>])
   \<and> sorted_wrt (<) [0, 2 :: int]"
  using Enumeratecameras_result [OF example_Enumeratecameras] example_Enumeratecameras
  by simp

section \<open>Properties: building the graph\<close>

lemma BuildFilterGraph_first_failure:
  "BuildFilterGraph fw this = first_failure (build_steps fw this) this"
  by (auto simp: BuildFilterGraph_def build_steps_def S_OK_def FAILED_def
      split: sum.splits prod.splits)

lemma step_starts_append [simp]: "step_starts (xs @ ys) = step_starts xs @ step_starts ys"
  by (simp add: step_starts_def List.map_filter_def)

lemma step_starts_Nil [simp]: "step_starts [] = []"
  by (simp add: step_starts_def List.map_filter_def)

lemma step_starts_Cons [simp]:
  "step_starts (c # cs) = (case step_start c of None \<Rightarrow> [] | Some m \<Rightarrow> [m]) @ step_starts cs"
  by (simp add: step_starts_def List.map_filter_def split: option.splits)

subsection \<open>What the enumeration leaves\<close>

lemma enumerate_loop_calls:
  "\<exists>new. calls (fst (enumerate_loop fw n idx this cams)) = calls this @ new
         \<and> step_starts new = []"
proof (induction n arbitrary: idx this cams)
  case 0
  show ?case by (simp add: call_def)
next
  case (Suc n)
  let ?t1 = "call (BindToStorage (nat idx) IID_IPropertyBag) (call EnumNext this)"
  let ?t2 = "call (PropertyBagRead (nat idx) ''FriendlyName'') ?t1"
  have c1: "calls ?t1 = calls this @ [EnumNext, BindToStorage (nat idx) IID_IPropertyBag]"
    and c2: "calls ?t2 = calls this @ [EnumNext, BindToStorage (nat idx) IID_IPropertyBag,
                PropertyBagRead (nat idx) ''FriendlyName'']"
    by (simp_all add: call_def)
  have "\<exists>t c. enumerate_loop fw (Suc n) idx this cams = enumerate_loop fw n (idx + 1) t c
          \<and> (t = ?t1 \<or> t = ?t2)"
  proof (cases "SUCCEEDED (response fw (BindToStorage (nat idx) IID_IPropertyBag))")
    case False
    then have "enumerate_loop fw (Suc n) idx this cams = enumerate_loop fw n (idx + 1) ?t1 cams"
      by simp
    then show ?thesis by blast
  next
    case True
    note b = this
    show ?thesis
    proof (cases "SUCCEEDED (response fw (PropertyBagRead (nat idx) ''FriendlyName''))")
      case False
      then have "enumerate_loop fw (Suc n) idx this cams = enumerate_loop fw n (idx + 1) ?t2 cams"
        using b by (simp add: Let_def)
      then show ?thesis by blast
    next
      case True
      then have "enumerate_loop fw (Suc n) idx this cams = enumerate_loop fw n (idx + 1) ?t2
          (cams @ [\<lparr>friendlyName = friendly_name fw (nat idx), devicePath = [],
                        moniker = nat idx, index = idx\<rparr>])"
        using b by (simp add: Let_def)
      then show ?thesis by blast
    qed
  qed
  then obtain t c where e: "enumerate_loop fw (Suc n) idx this cams = enumerate_loop fw n (idx + 1) t c"
    and t: "t = ?t1 \<or> t = ?t2"
    by blast
  from Suc [of "idx + 1" t c] obtain new
    where n: "calls (fst (enumerate_loop fw n (idx + 1) t c)) = calls t @ new"
      "step_starts new = []" by blast
  from t show ?case
  proof
    assume "t = ?t1"
    then have "calls (fst (enumerate_loop fw (Suc n) idx this cams))
        = calls this @ ([EnumNext, BindToStorage (nat idx) IID_IPropertyBag] @ new)"
      using e n(1) c1 by simp
    moreover have "step_starts ([EnumNext, BindToStorage (nat idx) IID_IPropertyBag] @ new) = []"
      using n(2) by simp
    ultimately show ?thesis by blast
  next
    assume "t = ?t2"
    then have "calls (fst (enumerate_loop fw (Suc n) idx this cams))
        = calls this @ ([EnumNext, BindToStorage (nat idx) IID_IPropertyBag,
                PropertyBagRead (nat idx) ''FriendlyName''] @ new)"
      using e n(1) c2 by simp
    moreover have "step_starts ([EnumNext, BindToStorage (nat idx) IID_IPropertyBag,
                PropertyBagRead (nat idx) ''FriendlyName''] @ new) = []"
      using n(2) by simp
    ultimately show ?thesis by blast
  qed
qed

lemma enumerate_loop_fields:
  "m_pGraph (fst (enumerate_loop fw n idx this cams)) = m_pGraph this
   \<and> m_pCaptureGraphBuilder (fst (enumerate_loop fw n idx this cams)) = m_pCaptureGraphBuilder this
   \<and> m_pCameraFilter (fst (enumerate_loop fw n idx this cams)) = m_pCameraFilter this"
  by (induction n arbitrary: idx this cams) (simp_all add: call_def Let_def)

lemma Enumeratecameras_calls:
  assumes "Enumeratecameras fw this cameras = Inr (hr, this', cameras')"
  shows "\<exists>new. calls this' = calls this @ new \<and> step_starts new = [Select_camera]"
proof -
  let ?t1 = "call (CoCreateInstance CLSID_SystemDeviceEnum) this"
  let ?t2 = "call (CreateClassEnumerator CLSID_VideoInputDeviceCategory) ?t1"
  from enumerate_loop_calls [of fw "device_count fw" 0 ?t2 "[]"] obtain new where
    n: "calls (fst (enumerate_loop fw (device_count fw) 0 ?t2 [])) = calls ?t2 @ new"
      "step_starts new = []" by blast
  from assms have "this' = ?t1 \<or> this' = ?t2 \<or> this' = fst (enumerate_loop fw (device_count fw) 0 ?t2 [])"
    by (auto simp: Enumeratecameras_def Let_def split: if_splits prod.splits)
  then consider "this' = ?t1" | "this' = ?t2"
    | "this' = fst (enumerate_loop fw (device_count fw) 0 ?t2 [])" by blast
  then show ?thesis
  proof cases
    case 1
    then have "calls this' = calls this @ [CoCreateInstance CLSID_SystemDeviceEnum]"
      by (simp add: call_def)
    moreover have "step_starts [CoCreateInstance CLSID_SystemDeviceEnum] = [Select_camera]"
      by simp
    ultimately show ?thesis by blast
  next
    case 2
    then have "calls this' = calls this @ [CoCreateInstance CLSID_SystemDeviceEnum,
                CreateClassEnumerator CLSID_VideoInputDeviceCategory]"
      by (simp add: call_def)
    moreover have "step_starts [CoCreateInstance CLSID_SystemDeviceEnum,
                CreateClassEnumerator CLSID_VideoInputDeviceCategory] = [Select_camera]"
      by simp
    ultimately show ?thesis by blast
  next
    case 3
    then have "calls this' = calls this @ ([CoCreateInstance CLSID_SystemDeviceEnum,
                CreateClassEnumerator CLSID_VideoInputDeviceCategory] @ new)"
      using n(1) by (simp add: call_def)
    moreover have "step_starts ([CoCreateInstance CLSID_SystemDeviceEnum,
                CreateClassEnumerator CLSID_VideoInputDeviceCategory] @ new) = [Select_camera]"
      using n(2) by simp
    ultimately show ?thesis by blast
  qed
qed

lemma Enumeratecameras_fields:
  assumes "Enumeratecameras fw this cameras = Inr (hr, this', cameras')"
  shows "m_pGraph this' = m_pGraph this
       \<and> m_pCaptureGraphBuilder this' = m_pCaptureGraphBuilder this
       \<and> m_pCameraFilter this' = m_pCameraFilter this"
  using assms enumerate_loop_fields [of fw "device_count fw" 0
      "call (CreateClassEnumerator CLSID_VideoInputDeviceCategory)
         (call (CoCreateInstance CLSID_SystemDeviceEnum) this)" "[]"]
  by (auto simp: Enumeratecameras_def Let_def call_def split: if_splits prod.splits)

lemma Enumeratecameras_returns:
  assumes "class_enumerator fw"
  shows "\<exists>hr this' cameras'. Enumeratecameras fw this cameras = Inr (hr, this', cameras')"
  using assms by (simp add: Enumeratecameras_def Let_def split: prod.splits)

lemma find_filter:
  "List.find P xs = (case filter P xs of [] \<Rightarrow> None | x # ys \<Rightarrow> Some x)"
  by (induction xs) simp_all

lemma Enumeratecameras_first:
  assumes "Enumeratecameras fw this cameras = Inr (hr, this', cameras')" "\<not> FAILED hr"
  shows "\<exists>d. first_readable fw = Some d \<and> 0 \<le> d \<and> cameras' \<noteq> []
           \<and> moniker (cameras' ! 0) = nat d"
proof -
  let ?ds = "filter (readable fw) [0..int (device_count fw) - 1]"
  from Enumeratecameras_Inr [OF assms(1)] assms(2) not_found_not_ok(2)
  have c: "cameras' = map (camera_info fw) ?ds" "cameras' \<noteq> []"
    by (auto split: if_splits)
  then obtain d ds where d: "?ds = d # ds" by (cases ?ds) auto
  then have "d \<in> set ?ds" by simp
  then have "0 \<le> d" by simp
  moreover have "first_readable fw = Some d"
    using d by (simp add: first_readable_def find_filter)
  moreover have "moniker (cameras' ! 0) = nat d"
    using c(1) d by (simp add: camera_info_def)
  ultimately show ?thesis using c(2) by blast
qed

subsection \<open>The four steps, one by one\<close>

text \<open>
  Of each step: the calls it adds and the step they start, the filters it leaves, and
  that it returns on an object with a graph.
\<close>

lemma SelectCamera_step:
  assumes "SelectCamera fw 0 this = Inr (hr, this')"
  shows "\<exists>new. calls this' = calls this @ new \<and> step_starts new = [Select_camera]
           \<and> m_pGraph this' = m_pGraph this
           \<and> m_pCaptureGraphBuilder this' = m_pCaptureGraphBuilder this
           \<and> (\<not> FAILED hr \<longrightarrow>
                (\<exists>d. first_readable fw = Some d \<and> m_pCameraFilter this' = Some (Device (nat d))))"
proof -
  from assms obtain hr0 this1 cams where e: "Enumeratecameras fw this [] = Inr (hr0, this1, cams)"
    by (auto simp: SelectCamera_def split: sum.splits)
  from Enumeratecameras_calls [OF e] obtain new where
    n: "calls this1 = calls this @ new" "step_starts new = [Select_camera]" by blast
  note f = Enumeratecameras_fields [OF e]
  show ?thesis
  proof (cases "FAILED hr0")
    case True
    then have "hr = hr0" "this' = this1" using assms e by (simp_all add: SelectCamera_def)
    then show ?thesis using n f True by auto
  next
    case False
    from Enumeratecameras_first [OF e False] obtain d where
      d: "first_readable fw = Some d" "cams \<noteq> []" "moniker (cams ! 0) = nat d"
      by blast
    let ?hr = "response fw (BindToObject (nat d) IID_IBaseFilter)"
    let ?this2 = "(call (BindToObject (nat d) IID_IBaseFilter) this1)
                    \<lparr>m_pCameraFilter := (if SUCCEEDED ?hr then Some (Device (nat d)) else None)\<rparr>"
    have c2: "calls ?this2 = calls this @ (new @ [BindToObject (nat d) IID_IBaseFilter])"
      using n(1) by (simp add: call_def)
    have s2: "step_starts (new @ [BindToObject (nat d) IID_IBaseFilter]) = [Select_camera]"
      using n(2) by simp
    show ?thesis
    proof (cases "FAILED ?hr")
      case True
      then have "hr = ?hr" "this' = ?this2"
        using assms e False d by (auto simp: SelectCamera_def Let_def)
      then show ?thesis using c2 s2 f True by (auto simp: call_def)
    next
      case False
      note ok = this
      then have s: "SUCCEEDED ?hr" by (simp add: FAILED_def SUCCEEDED_def)
      let ?a = "AddFilter (Some (Device (nat d))) ''Camera''"
      from assms e \<open>\<not> FAILED hr0\<close> d ok s have g: "m_pGraph this1"
        and r: "hr = response fw ?a" "this' = call ?a ?this2"
        by (auto simp: SelectCamera_def Let_def call_def split: if_splits)
      have "calls this' = calls this @ (new @ [BindToObject (nat d) IID_IBaseFilter, ?a])"
        using r(2) n(1) by (simp add: call_def)
      moreover have "step_starts (new @ [BindToObject (nat d) IID_IBaseFilter, ?a])
                     = [Select_camera]"
        using n(2) by simp
      moreover have "m_pCameraFilter this' = Some (Device (nat d))"
        using r(2) s by (simp add: call_def)
      moreover have "m_pGraph this' = m_pGraph this"
        "m_pCaptureGraphBuilder this' = m_pCaptureGraphBuilder this"
        using r(2) f by (simp_all add: call_def)
      ultimately show ?thesis using d(1) by blast
    qed
  qed
qed

lemma SelectCamera_returns:
  assumes "class_enumerator fw" "m_pGraph this"
  shows "\<exists>hr this'. SelectCamera fw cameraIndex this = Inr (hr, this')"
proof -
  from Enumeratecameras_returns [OF assms(1)] obtain hr0 this1 cams
    where e: "Enumeratecameras fw this [] = Inr (hr0, this1, cams)" by blast
  from Enumeratecameras_fields [OF e] assms(2) have "m_pGraph this1" by simp
  then show ?thesis using e by (simp add: SelectCamera_def Let_def call_def)
qed

lemma SetupSampleGrabber_step:
  assumes "SetupSampleGrabber fw mediaSubType this = Inr (hr, this')"
  shows "\<exists>new. calls this' = calls this @ new \<and> step_starts new = [Setup_sample_grabber]
           \<and> m_pGraph this' = m_pGraph this
           \<and> m_pCaptureGraphBuilder this' = m_pCaptureGraphBuilder this
           \<and> m_pCameraFilter this' = m_pCameraFilter this
           \<and> (\<not> FAILED hr \<longrightarrow> m_pSampleGrabberFilter this' = Some (Instance CLSID_SampleGrabber))"
  using assms
  by (auto simp: SetupSampleGrabber_def Let_def call_def FAILED_def SUCCEEDED_def
      split: if_splits)

lemma SetupSampleGrabber_returns:
  assumes "m_pGraph this"
  shows "\<exists>hr this'. SetupSampleGrabber fw mediaSubType this = Inr (hr, this')"
  using assms by (simp add: SetupSampleGrabber_def Let_def call_def)

lemma SetupNullRenderer_step:
  assumes "SetupNullRenderer fw this = Inr (hr, this')"
  shows "\<exists>new. calls this' = calls this @ new \<and> step_starts new = [Setup_null_renderer]
           \<and> m_pGraph this' = m_pGraph this
           \<and> m_pCaptureGraphBuilder this' = m_pCaptureGraphBuilder this
           \<and> m_pCameraFilter this' = m_pCameraFilter this
           \<and> m_pSampleGrabberFilter this' = m_pSampleGrabberFilter this
           \<and> (\<not> FAILED hr \<longrightarrow> m_pNullRenderer this' = Some (Instance CLSID_NullRenderer))"
  using assms
  by (auto simp: SetupNullRenderer_def Let_def call_def FAILED_def SUCCEEDED_def
      split: if_splits)

lemma SetupNullRenderer_returns:
  assumes "m_pGraph this"
  shows "\<exists>hr this'. SetupNullRenderer fw this = Inr (hr, this')"
  using assms by (simp add: SetupNullRenderer_def Let_def call_def)

lemma ConnectFilters_step:
  assumes "ConnectFilters fw this = Inr (hr, this')"
  shows "calls this' = calls this
           @ [RenderStream PIN_CATEGORY_CAPTURE MEDIATYPE_Video (m_pCameraFilter this)
                (m_pSampleGrabberFilter this) (m_pNullRenderer this)]
       \<and> hr = response fw (RenderStream PIN_CATEGORY_CAPTURE MEDIATYPE_Video
                (m_pCameraFilter this) (m_pSampleGrabberFilter this) (m_pNullRenderer this))
       \<and> m_pCameraFilter this' = m_pCameraFilter this"
  using assms by (auto simp: ConnectFilters_def Let_def call_def split: if_splits)

lemma ConnectFilters_returns:
  assumes "m_pCaptureGraphBuilder this"
  shows "\<exists>hr this'. ConnectFilters fw this = Inr (hr, this')"
  using assms by (simp add: ConnectFilters_def Let_def)

subsection \<open>The steps after the camera\<close>

lemma later_steps_run:
  assumes "first_failure (later_steps fw) this = Inr (hr, this')"
    and "m_pCameraFilter this = Some camera"
  shows "\<exists>new k. calls this' = calls this @ new
           \<and> step_starts new = take k [Setup_sample_grabber, Setup_null_renderer, Connect_filters]
           \<and> 0 < k \<and> k \<le> 3 \<and> (k < 3 \<longrightarrow> FAILED hr)
           \<and> (k = 3 \<longrightarrow>
                (\<exists>pre. new = pre @ [RenderStream PIN_CATEGORY_CAPTURE MEDIATYPE_Video
                           (Some camera) (Some (Instance CLSID_SampleGrabber))
                           (Some (Instance CLSID_NullRenderer))])
              \<and> hr = response fw (RenderStream PIN_CATEGORY_CAPTURE MEDIATYPE_Video
                           (Some camera) (Some (Instance CLSID_SampleGrabber))
                           (Some (Instance CLSID_NullRenderer)))
              \<and> m_pCameraFilter this' = Some camera)"
proof -
  from assms(1) obtain hr1 this1 where
    s1: "SetupSampleGrabber fw MEDIASUBTYPE_RGB24 this = Inr (hr1, this1)"
    by (auto simp: later_steps_def split: sum.splits)
  from SetupSampleGrabber_step [OF s1] obtain new1 where
    n1: "calls this1 = calls this @ new1" "step_starts new1 = [Setup_sample_grabber]"
      "m_pCameraFilter this1 = m_pCameraFilter this"
      "\<not> FAILED hr1 \<longrightarrow> m_pSampleGrabberFilter this1 = Some (Instance CLSID_SampleGrabber)"
    by blast
  show ?thesis
  proof (cases "FAILED hr1")
    case True
    then have "hr = hr1" "this' = this1" using assms(1) s1 by (simp_all add: later_steps_def)
    then have "calls this' = calls this @ new1
           \<and> step_starts new1 = take 1 [Setup_sample_grabber, Setup_null_renderer, Connect_filters]
           \<and> 0 < (1::nat) \<and> (1::nat) \<le> 3 \<and> FAILED hr"
      using n1 True by simp
    then show ?thesis by (intro exI [of _ new1] exI [of _ 1]) simp
  next
    case False
    note ok1 = this
    from assms(1) s1 ok1 obtain hr2 this2 where
      s2: "SetupNullRenderer fw this1 = Inr (hr2, this2)"
      by (auto simp: later_steps_def split: sum.splits)
    from SetupNullRenderer_step [OF s2] obtain new2 where
      n2: "calls this2 = calls this1 @ new2" "step_starts new2 = [Setup_null_renderer]"
        "m_pCameraFilter this2 = m_pCameraFilter this1"
        "m_pSampleGrabberFilter this2 = m_pSampleGrabberFilter this1"
        "\<not> FAILED hr2 \<longrightarrow> m_pNullRenderer this2 = Some (Instance CLSID_NullRenderer)"
      by blast
    show ?thesis
    proof (cases "FAILED hr2")
      case True
      then have "hr = hr2" "this' = this2"
        using assms(1) s1 s2 ok1 by (simp_all add: later_steps_def)
      then have "calls this' = calls this @ (new1 @ new2)
           \<and> step_starts (new1 @ new2)
               = take 2 [Setup_sample_grabber, Setup_null_renderer, Connect_filters]
           \<and> 0 < (2::nat) \<and> (2::nat) \<le> 3 \<and> FAILED hr"
        using n1 n2 True by simp
      then show ?thesis by (intro exI [of _ "new1 @ new2"] exI [of _ 2]) simp
    next
      case False
      let ?c = "RenderStream PIN_CATEGORY_CAPTURE MEDIATYPE_Video
                  (Some camera) (Some (Instance CLSID_SampleGrabber))
                  (Some (Instance CLSID_NullRenderer))"
      from assms(1) s1 s2 ok1 False have s3: "ConnectFilters fw this2 = Inr (hr, this')"
        by (simp add: later_steps_def)
      have filters: "m_pCameraFilter this2 = Some camera"
        "m_pSampleGrabberFilter this2 = Some (Instance CLSID_SampleGrabber)"
        "m_pNullRenderer this2 = Some (Instance CLSID_NullRenderer)"
        using n1 n2 ok1 False assms(2) by simp_all
      from ConnectFilters_step [OF s3] filters
      have n3: "calls this' = calls this2 @ [?c]" "hr = response fw ?c"
        "m_pCameraFilter this' = Some camera"
        by simp_all
      have "calls this' = calls this @ ((new1 @ new2) @ [?c])"
        using n1(1) n2(1) n3(1) by simp
      moreover have "step_starts ((new1 @ new2) @ [?c])
                     = take 3 [Setup_sample_grabber, Setup_null_renderer, Connect_filters]"
        using n1(2) n2(2) by simp
      ultimately show ?thesis using n3(2,3)
        by (intro exI [of _ "(new1 @ new2) @ [?c]"] exI [of _ 3]) simp
    qed
  qed
qed

lemma later_steps_return:
  assumes "m_pGraph this" "m_pCaptureGraphBuilder this"
  shows "\<exists>hr this'. first_failure (later_steps fw) this = Inr (hr, this')"
proof -
  from SetupSampleGrabber_returns [OF assms(1)] obtain hr1 this1 where
    s1: "SetupSampleGrabber fw MEDIASUBTYPE_RGB24 this = Inr (hr1, this1)" by blast
  from SetupSampleGrabber_step [OF s1] assms
  have g1: "m_pGraph this1" "m_pCaptureGraphBuilder this1" by auto
  from SetupNullRenderer_returns [OF g1(1)] obtain hr2 this2 where
    s2: "SetupNullRenderer fw this1 = Inr (hr2, this2)" by blast
  from SetupNullRenderer_step [OF s2] g1 have "m_pCaptureGraphBuilder this2" by auto
  from ConnectFilters_returns [OF this] obtain hr3 this3 where
    s3: "ConnectFilters fw this2 = Inr (hr3, this3)" by blast
  show ?thesis using s1 s2 s3 by (simp add: later_steps_def)
qed

lemma build_steps_later:
  "build_steps fw this
   = (if m_pCameraFilter this = None then [SelectCamera fw 0] else []) @ later_steps fw"
  by (simp add: build_steps_def later_steps_def)

text \<open>
  Claim C6. \<^verbatim>\<open>BuildFilterGraph\<close> runs its steps in the fixed order: the selection of
  camera 0 when no camera filter is set, the sample grabber, the null renderer, the
  connection; it ends at the first step whose status code is a failure, with that code,
  and otherwise returns the code of the connection. On an object with a graph and a
  capture graph builder, and a framework that hands out a device enumerator, it always
  returns. In the calls it makes, the steps that were started are an initial part of
  that order, and all of it unless the result is a failure. When the connection is
  reached it is the last call and the only \<^verbatim>\<open>RenderStream\<close>: it is given the camera
  filter, the sample grabber and the null renderer, in this order, and its code is the
  result. The camera filter is the one set before or, when none was set, the first
  device whose name can be read.
\<close>

theorem BuildFilterGraph_order:
  "BuildFilterGraph fw this = first_failure (build_steps fw this) this
   \<and> (m_pGraph this \<and> m_pCaptureGraphBuilder this \<and> class_enumerator fw
        \<longrightarrow> (\<exists>hr this'. BuildFilterGraph fw this = Inr (hr, this')))
   \<and> (\<forall>hr this'. BuildFilterGraph fw this = Inr (hr, this') \<longrightarrow>
        (\<exists>new k. calls this' = calls this @ new
              \<and> step_starts new = take k (expected_starts this)
              \<and> 0 < k \<and> k \<le> length (expected_starts this)
              \<and> (k < length (expected_starts this) \<longrightarrow> FAILED hr)
              \<and> (k = length (expected_starts this) \<longrightarrow>
                   (\<exists>camera pre.
                      m_pCameraFilter this' = Some camera
                    \<and> (if m_pCameraFilter this = None
                        then \<exists>d. first_readable fw = Some d \<and> camera = Device (nat d)
                        else m_pCameraFilter this = Some camera)
                    \<and> new = pre @ [RenderStream PIN_CATEGORY_CAPTURE MEDIATYPE_Video
                                    (Some camera) (Some (Instance CLSID_SampleGrabber))
                                    (Some (Instance CLSID_NullRenderer))]
                    \<and> hr = response fw (RenderStream PIN_CATEGORY_CAPTURE MEDIATYPE_Video
                                    (Some camera) (Some (Instance CLSID_SampleGrabber))
                                    (Some (Instance CLSID_NullRenderer)))))))"
proof (intro conjI allI impI)
  show "BuildFilterGraph fw this = first_failure (build_steps fw this) this"
    by (rule BuildFilterGraph_first_failure)
next
  assume a: "m_pGraph this \<and> m_pCaptureGraphBuilder this \<and> class_enumerator fw"
  show "\<exists>hr this'. BuildFilterGraph fw this = Inr (hr, this')"
  proof (cases "m_pCameraFilter this")
    case (Some camera)
    then have "BuildFilterGraph fw this = first_failure (later_steps fw) this"
      by (simp add: BuildFilterGraph_first_failure build_steps_later)
    then show ?thesis using later_steps_return [of this fw] a by simp
  next
    case None
    from SelectCamera_returns [of fw this 0] a obtain hr1 this1 where
      s: "SelectCamera fw 0 this = Inr (hr1, this1)" by blast
    from SelectCamera_step [OF s] a have g: "m_pGraph this1" "m_pCaptureGraphBuilder this1"
      by auto
    from later_steps_return [OF g] obtain hr2 this2 where
      "first_failure (later_steps fw) this1 = Inr (hr2, this2)" by blast
    then show ?thesis using None s
      by (cases "FAILED hr1")
        (simp_all add: BuildFilterGraph_first_failure build_steps_later later_steps_def)
  qed
next
  fix hr this'
  assume b: "BuildFilterGraph fw this = Inr (hr, this')"
  let ?goal = "\<lambda>new k. calls this' = calls this @ new
              \<and> step_starts new = take k (expected_starts this)
              \<and> 0 < k \<and> k \<le> length (expected_starts this)
              \<and> (k < length (expected_starts this) \<longrightarrow> FAILED hr)
              \<and> (k = length (expected_starts this) \<longrightarrow>
                   (\<exists>camera pre.
                      m_pCameraFilter this' = Some camera
                    \<and> (if m_pCameraFilter this = None
                        then \<exists>d. first_readable fw = Some d \<and> camera = Device (nat d)
                        else m_pCameraFilter this = Some camera)
                    \<and> new = pre @ [RenderStream PIN_CATEGORY_CAPTURE MEDIATYPE_Video
                                    (Some camera) (Some (Instance CLSID_SampleGrabber))
                                    (Some (Instance CLSID_NullRenderer))]
                    \<and> hr = response fw (RenderStream PIN_CATEGORY_CAPTURE MEDIATYPE_Video
                                    (Some camera) (Some (Instance CLSID_SampleGrabber))
                                    (Some (Instance CLSID_NullRenderer)))))"
  show "\<exists>new k. ?goal new k"
  proof (cases "m_pCameraFilter this")
    case (Some camera)
    then have e: "expected_starts this = [Setup_sample_grabber, Setup_null_renderer, Connect_filters]"
      by (simp add: expected_starts_def)
    from b Some have "first_failure (later_steps fw) this = Inr (hr, this')"
      by (simp add: BuildFilterGraph_first_failure build_steps_later)
    from later_steps_run [OF this Some] obtain new k where
      r: "calls this' = calls this @ new"
        "step_starts new = take k [Setup_sample_grabber, Setup_null_renderer, Connect_filters]"
        "0 < k" "k \<le> 3" "k < 3 \<longrightarrow> FAILED hr"
        "k = 3 \<longrightarrow>
                (\<exists>pre. new = pre @ [RenderStream PIN_CATEGORY_CAPTURE MEDIATYPE_Video
                           (Some camera) (Some (Instance CLSID_SampleGrabber))
                           (Some (Instance CLSID_NullRenderer))])
              \<and> hr = response fw (RenderStream PIN_CATEGORY_CAPTURE MEDIATYPE_Video
                           (Some camera) (Some (Instance CLSID_SampleGrabber))
                           (Some (Instance CLSID_NullRenderer)))
              \<and> m_pCameraFilter this' = Some camera"
      by (elim exE conjE)
    have "?goal new k"
      unfolding e using r Some by auto
    then show ?thesis by blast
  next
    case None
    then have e: "expected_starts this
        = [Select_camera, Setup_sample_grabber, Setup_null_renderer, Connect_filters]"
      by (simp add: expected_starts_def)
    from b None obtain hr1 this1 where s: "SelectCamera fw 0 this = Inr (hr1, this1)"
      by (auto simp: BuildFilterGraph_def split: sum.splits)
    from SelectCamera_step [OF s] obtain new1 where
      n1: "calls this1 = calls this @ new1" "step_starts new1 = [Select_camera]"
        "\<not> FAILED hr1 \<longrightarrow>
           (\<exists>d. first_readable fw = Some d \<and> m_pCameraFilter this1 = Some (Device (nat d)))"
      by blast
    show ?thesis
    proof (cases "FAILED hr1")
      case True
      then have "hr = hr1" "this' = this1"
        using b None s by (simp_all add: BuildFilterGraph_def)
      then have "?goal new1 1"
        unfolding e using n1 True by simp
      then show ?thesis by blast
    next
      case False
      with n1(3) obtain d where
        d: "first_readable fw = Some d" "m_pCameraFilter this1 = Some (Device (nat d))"
        by blast
      from b None s False have "first_failure (later_steps fw) this1 = Inr (hr, this')"
        by (simp add: BuildFilterGraph_first_failure build_steps_later later_steps_def)
      from later_steps_run [OF this d(2)] obtain new k where
        r: "calls this' = calls this1 @ new"
          "step_starts new = take k [Setup_sample_grabber, Setup_null_renderer, Connect_filters]"
          "0 < k" "k \<le> 3" "k < 3 \<longrightarrow> FAILED hr"
          "k = 3 \<longrightarrow>
                (\<exists>pre. new = pre @ [RenderStream PIN_CATEGORY_CAPTURE MEDIATYPE_Video
                           (Some (Device (nat d))) (Some (Instance CLSID_SampleGrabber))
                           (Some (Instance CLSID_NullRenderer))])
              \<and> hr = response fw (RenderStream PIN_CATEGORY_CAPTURE MEDIATYPE_Video
                           (Some (Device (nat d))) (Some (Instance CLSID_SampleGrabber))
                           (Some (Instance CLSID_NullRenderer)))
              \<and> m_pCameraFilter this' = Some (Device (nat d))"
        by (elim exE conjE)
      have c: "calls this' = calls this @ (new1 @ new)" using n1(1) r(1) by simp
      have st: "step_starts (new1 @ new) = take (Suc k) (expected_starts this)"
        unfolding e using n1(2) r(2) by simp
      have last: "Suc k = length (expected_starts this) \<longrightarrow>
                   (\<exists>camera pre.
                      m_pCameraFilter this' = Some camera
                    \<and> (if m_pCameraFilter this = None
                        then \<exists>d. first_readable fw = Some d \<and> camera = Device (nat d)
                        else m_pCameraFilter this = Some camera)
                    \<and> new1 @ new = pre @ [RenderStream PIN_CATEGORY_CAPTURE MEDIATYPE_Video
                                    (Some camera) (Some (Instance CLSID_SampleGrabber))
                                    (Some (Instance CLSID_NullRenderer))]
                    \<and> hr = response fw (RenderStream PIN_CATEGORY_CAPTURE MEDIATYPE_Video
                                    (Some camera) (Some (Instance CLSID_SampleGrabber))
                                    (Some (Instance CLSID_NullRenderer))))"
      proof
        assume "Suc k = length (expected_starts this)"
        then have "k = 3" unfolding e by simp
        with r(6) obtain pre where
          p: "new = pre @ [RenderStream PIN_CATEGORY_CAPTURE MEDIATYPE_Video
                           (Some (Device (nat d))) (Some (Instance CLSID_SampleGrabber))
                           (Some (Instance CLSID_NullRenderer))]"
            "hr = response fw (RenderStream PIN_CATEGORY_CAPTURE MEDIATYPE_Video
                           (Some (Device (nat d))) (Some (Instance CLSID_SampleGrabber))
                           (Some (Instance CLSID_NullRenderer)))"
            "m_pCameraFilter this' = Some (Device (nat d))"
          by blast
        have "new1 @ new = (new1 @ pre) @ [RenderStream PIN_CATEGORY_CAPTURE MEDIATYPE_Video
                           (Some (Device (nat d))) (Some (Instance CLSID_SampleGrabber))
                           (Some (Instance CLSID_NullRenderer))]"
          using p(1) by simp
        then show "\<exists>camera pre.
                      m_pCameraFilter this' = Some camera
                    \<and> (if m_pCameraFilter this = None
                        then \<exists>d. first_readable fw = Some d \<and> camera = Device (nat d)
                        else m_pCameraFilter this = Some camera)
                    \<and> new1 @ new = pre @ [RenderStream PIN_CATEGORY_CAPTURE MEDIATYPE_Video
                                    (Some camera) (Some (Instance CLSID_SampleGrabber))
                                    (Some (Instance CLSID_NullRenderer))]
                    \<and> hr = response fw (RenderStream PIN_CATEGORY_CAPTURE MEDIATYPE_Video
                                    (Some camera) (Some (Instance CLSID_SampleGrabber))
                                    (Some (Instance CLSID_NullRenderer)))"
          using p(2,3) d(1) None
          by (intro exI [of _ "Device (nat d)"] exI [of _ "new1 @ pre"]) simp
      qed
      have "?goal (new1 @ new) (Suc k)"
        using c st last r(3,4,5) unfolding e by simp
      then show ?thesis by blast
    qed
  qed
qed

subsection \<open>Three builds\<close>

lemma example_BuildFilterGraph:
  "BuildFilterGraph null_renderer_missing initialized_camera = Inr (0x80040154, example_unbuilt)"
  by (simp add: BuildFilterGraph_def SelectCamera_def Enumeratecameras_def
      SetupSampleGrabber_def SetupNullRenderer_def null_renderer_missing_def
      initialized_camera_def new_DirectShowCamera_def call_def example_unbuilt_def
      example_calls_def FAILED_def SUCCEEDED_def S_OK_def S_FALSE_def Let_def)

lemma example_built_BuildFilterGraph:
  "BuildFilterGraph one_camera initialized_camera = Inr (S_OK, example_built)"
  by (simp add: BuildFilterGraph_def SelectCamera_def Enumeratecameras_def
      SetupSampleGrabber_def SetupNullRenderer_def ConnectFilters_def one_camera_def
      initialized_camera_def new_DirectShowCamera_def call_def example_built_def
      example_calls_def example_RenderStream_def
      FAILED_def SUCCEEDED_def S_OK_def S_FALSE_def Let_def)

lemma example_cannot_connect:
  "BuildFilterGraph cannot_connect initialized_camera = Inr (VFW_E_CANNOT_CONNECT, example_built)"
  by (simp add: BuildFilterGraph_def SelectCamera_def Enumeratecameras_def
      SetupSampleGrabber_def SetupNullRenderer_def ConnectFilters_def cannot_connect_def
      initialized_camera_def new_DirectShowCamera_def call_def example_built_def
      example_calls_def example_RenderStream_def
      FAILED_def SUCCEEDED_def S_OK_def S_FALSE_def Let_def)

theorem BuildFilterGraph_order_witness:
  "m_pGraph initialized_camera \<and> m_pCaptureGraphBuilder initialized_camera
   \<and> class_enumerator one_camera
   \<and> BuildFilterGraph one_camera initialized_camera = Inr (S_OK, example_built)
   \<and> first_failure (build_steps one_camera initialized_camera) initialized_camera
       = Inr (S_OK, example_built)
   \<and> step_starts (calls example_built)
       = [Select_camera, Setup_sample_grabber, Setup_null_renderer, Connect_filters]
   \<and> last (calls example_built)
       = RenderStream PIN_CATEGORY_CAPTURE MEDIATYPE_Video (Some (Device 0))
           (Some (Instance CLSID_SampleGrabber)) (Some (Instance CLSID_NullRenderer))
   \<and> BuildFilterGraph cannot_connect initialized_camera
       = Inr (VFW_E_CANNOT_CONNECT, example_built)
   \<and> BuildFilterGraph null_renderer_missing initialized_camera
       = Inr (0x80040154, example_unbuilt)
   \<and> first_failure (build_steps null_renderer_missing initialized_camera) initialized_camera
       = Inr (0x80040154, example_unbuilt)
   \<and> FAILED 0x80040154
   \<and> step_starts (calls example_unbuilt)
       = [Select_camera, Setup_sample_grabber, Setup_null_renderer]"
proof -
  note t1 = BuildFilterGraph_order [of one_camera initialized_camera]
  note t2 = BuildFilterGraph_order [of null_renderer_missing initialized_camera]
  have i: "m_pGraph initialized_camera" "m_pCaptureGraphBuilder initialized_camera"
    "class_enumerator one_camera" "calls initialized_camera = []"
    "expected_starts initialized_camera
       = [Select_camera, Setup_sample_grabber, Setup_null_renderer, Connect_filters]"
    by (simp_all add: initialized_camera_def new_DirectShowCamera_def one_camera_def
        expected_starts_def)
  have f1: "first_failure (build_steps one_camera initialized_camera) initialized_camera
       = Inr (S_OK, example_built)"
    using t1 example_built_BuildFilterGraph by simp
  have f2: "first_failure (build_steps null_renderer_missing initialized_camera)
       initialized_camera = Inr (0x80040154, example_unbuilt)"
    using t2 example_BuildFilterGraph by simp
  from t1 example_built_BuildFilterGraph i not_found_not_ok(3)
  obtain new k camera pre where
    r: "calls example_built = new" "step_starts new = take k (expected_starts initialized_camera)"
      "k = length (expected_starts initialized_camera)"
      "new = pre @ [RenderStream PIN_CATEGORY_CAPTURE MEDIATYPE_Video
                      (Some camera) (Some (Instance CLSID_SampleGrabber))
                      (Some (Instance CLSID_NullRenderer))]"
      "m_pCameraFilter example_built = Some camera"
    by (auto simp: le_less)
  have c: "camera = Device 0"
    using r(5) by (simp add: example_built_def)
  have s1: "step_starts (calls example_built)
       = [Select_camera, Setup_sample_grabber, Setup_null_renderer, Connect_filters]"
    using r(1,2,3) i(5) by simp
  have l1: "last (calls example_built)
       = RenderStream PIN_CATEGORY_CAPTURE MEDIATYPE_Video (Some (Device 0))
           (Some (Instance CLSID_SampleGrabber)) (Some (Instance CLSID_NullRenderer))"
    using r(1,4) c by simp
  have s2: "step_starts (calls example_unbuilt)
       = [Select_camera, Setup_sample_grabber, Setup_null_renderer]"
    by (simp add: example_unbuilt_def example_calls_def)
  have "FAILED 0x80040154" by (simp add: FAILED_def)
  then show ?thesis
    using i(1-3) example_built_BuildFilterGraph f1 s1 l1 example_cannot_connect
      example_BuildFilterGraph f2 s2
    by simp
qed

section \<open>Properties: what depends on the platform\<close>

lemma failing_Enumeratecameras:
  "FAILED hr \<Longrightarrow> Enumeratecameras (dshow (failing_platform hr tick)) this cameras
     = Inr (hr, call (CoCreateInstance CLSID_SystemDeviceEnum) this, [])"
  by (simp add: Enumeratecameras_def failing_platform_def)

lemma failing_BuildFilterGraph:
  "FAILED hr \<Longrightarrow> \<exists>this'. BuildFilterGraph (dshow (failing_platform hr tick)) this = Inr (hr, this')"
proof (cases "m_pCameraFilter this")
  case None
  assume "FAILED hr"
  then show ?thesis using None
    by (simp add: BuildFilterGraph_def SelectCamera_def failing_Enumeratecameras)
next
  case (Some camera)
  assume "FAILED hr"
  then show ?thesis using Some not_found_not_ok(3)
    by (simp add: BuildFilterGraph_def SetupSampleGrabber_def failing_platform_def Let_def)
qed

lemma two_failures: "FAILED E_FAIL" "FAILED E_NOINTERFACE" "E_FAIL \<noteq> E_NOINTERFACE"
  by (simp_all add: FAILED_def E_FAIL_def E_NOINTERFACE_def)

text \<open>
  Claim C8, as stated, has no operation of the program compute a result from its
  explicit inputs alone. The error description of \<open>E_INVALIDARG\<close> is the same on
  every platform.
\<close>

theorem platform_independent_counterexample:
  "\<not> depends_on_platform (Op_GetErrorDescription E_INVALIDARG)
   \<and> GetErrorDescription E_INVALIDARG = ''HRESULT: 0x80070057 (Invalid argument)''"
  by (simp add: depends_on_platform_def GetErrorDescription_def hex_of_long_def
      hex_of_nat.simps hex_digit_def E_INVALIDARG_def VFW_E_NOT_FOUND_def E_NOINTERFACE_def)

text \<open>
  Claim C8, amended. \<^verbatim>\<open>GetErrorDescription\<close> and \<^verbatim>\<open>CalculateAverageBrightness\<close> are
  functions of their explicit inputs alone: their results are the same on every
  platform. The operations that call the framework or read the clock depend on it:
  \<^verbatim>\<open>Enumeratecameras\<close>, \<^verbatim>\<open>BuildFilterGraph\<close>, and \<^verbatim>\<open>GetAverageFPS\<close> when frames were
  counted.
\<close>

theorem platform_dependence:
  "\<not> depends_on_platform (Op_GetErrorDescription hr)
   \<and> \<not> depends_on_platform (Op_CalculateAverageBrightness frameData frameSize)
   \<and> depends_on_platform (Op_Enumeratecameras this cameras)
   \<and> depends_on_platform (Op_BuildFilterGraph this)
   \<and> (m_frameCount cb \<noteq> 0 \<longrightarrow> depends_on_platform (Op_GetAverageFPS cb))"
proof (intro conjI impI)
  show "\<not> depends_on_platform (Op_GetErrorDescription hr)"
    and "\<not> depends_on_platform (Op_CalculateAverageBrightness frameData frameSize)"
    by (simp_all add: depends_on_platform_def)
next
  have "perform (failing_platform E_FAIL 0) (Op_Enumeratecameras this cameras)
        \<noteq> perform (failing_platform E_NOINTERFACE 0) (Op_Enumeratecameras this cameras)"
    using two_failures by (simp add: failing_Enumeratecameras)
  then show "depends_on_platform (Op_Enumeratecameras this cameras)"
    unfolding depends_on_platform_def by blast
next
  obtain a b where
    "BuildFilterGraph (dshow (failing_platform E_FAIL 0)) this = Inr (E_FAIL, a)"
    "BuildFilterGraph (dshow (failing_platform E_NOINTERFACE 0)) this = Inr (E_NOINTERFACE, b)"
    using failing_BuildFilterGraph [of E_FAIL 0 this]
      failing_BuildFilterGraph [of E_NOINTERFACE 0 this] two_failures by blast
  then have "perform (failing_platform E_FAIL 0) (Op_BuildFilterGraph this)
        \<noteq> perform (failing_platform E_NOINTERFACE 0) (Op_BuildFilterGraph this)"
    using two_failures by simp
  then show "depends_on_platform (Op_BuildFilterGraph this)"
    unfolding depends_on_platform_def by blast
next
  assume n: "m_frameCount cb \<noteq> 0"
  then have s: "real_of_int (sint (m_frameCount cb)) \<noteq> 0" by (simp add: signed_eq_0_iff)
  have a: "GetAverageFPS (m_startTime cb) cb = Fin 0"
    by (simp add: GetAverageFPS_def)
  have "(m_startTime cb + 1) - m_startTime cb = 1" by simp
  then have b: "GetAverageFPS (m_startTime cb + 1) cb
             = Fin (real_of_int (sint (m_frameCount cb)) * 1000)"
    by (simp add: GetAverageFPS_def Let_def ddiv_nonzero)
  have "perform (failing_platform E_FAIL (m_startTime cb)) (Op_GetAverageFPS cb)
        \<noteq> perform (failing_platform E_FAIL (m_startTime cb + 1)) (Op_GetAverageFPS cb)"
    using a b s by (simp add: failing_platform_def)
  then show "depends_on_platform (Op_GetAverageFPS cb)"
    unfolding depends_on_platform_def by blast
qed

theorem platform_dependence_witness:
  "m_frameCount \<lparr>m_refCount = 1, m_frameCount = 60, m_startTime = 3000,
       m_lastFrameTime = 4990\<rparr> \<noteq> 0
   \<and> depends_on_platform (Op_GetAverageFPS \<lparr>m_refCount = 1, m_frameCount = 60,
       m_startTime = 3000, m_lastFrameTime = 4990\<rparr>)
   \<and> depends_on_platform (Op_BuildFilterGraph initialized_camera)
   \<and> \<not> depends_on_platform (Op_CalculateAverageBrightness (Some [10, 20, 30]) 3)"
  using platform_dependence [of _ "Some [10, 20, 30]" 3 initialized_camera _
      "\<lparr>m_refCount = 1, m_frameCount = 60, m_startTime = 3000, m_lastFrameTime = 4990\<rparr>"]
  by simp

end
